theory Spec2Isabelle
  imports Complex_Main
begin

section \<open>Strings and numbers\<close>

text \<open>
  A TypeScript string is a sequence of UTF-16 code units; \<open>text[i]\<close>, \<open>text.length\<close>
  and the regular expressions of the source (none carries the \<open>u\<close> flag) all work on
  code units. A string is therefore a list of code units, each a natural number.
  Literals are written \<open>str ''...''\<close>. Numbers are modelled as exact reals: the
  rounding, the infinities and the NaN of IEEE doubles are outside the model.
\<close>

type_synonym jsstring = "nat list"

definition str :: "string \<Rightarrow> jsstring" where
  "str s = map of_char s"

definition star :: nat where "star = 42"
definition underscore :: nat where "underscore = 95"
definition hyphen :: nat where "hyphen = 45"
definition hash :: nat where "hash = 35"
definition dot :: nat where "dot = 46"
definition space :: nat where "space = 32"
definition newline :: nat where "newline = 10"
definition bullet :: nat where "bullet = 8226"

text \<open>The class \<open>\s\<close> of ECMAScript, which is also what \<open>trim\<close> removes.\<close>

definition is_ws :: "nat \<Rightarrow> bool" where
  "is_ws c \<longleftrightarrow>
     c = 9 \<or> c = 10 \<or> c = 11 \<or> c = 12 \<or> c = 13 \<or> c = 32 \<or> c = 160 \<or> c = 5760 \<or>
     (8192 \<le> c \<and> c \<le> 8202) \<or> c = 8232 \<or> c = 8233 \<or> c = 8239 \<or> c = 8287 \<or>
     c = 12288 \<or> c = 65279"

text \<open>The line terminators, which \<open>.\<close> does not match.\<close>

definition is_lt :: "nat \<Rightarrow> bool" where
  "is_lt c \<longleftrightarrow> c = 10 \<or> c = 13 \<or> c = 8232 \<or> c = 8233"

text \<open>The class \<open>\d\<close>.\<close>

definition is_digit :: "nat \<Rightarrow> bool" where
  "is_digit c \<longleftrightarrow> 48 \<le> c \<and> c \<le> 57"

definition trim :: "jsstring \<Rightarrow> jsstring" where
  "trim s = rev (dropWhile is_ws (rev (dropWhile is_ws s)))"

text \<open>
  \<open>s.split(/\s+/)\<close>: the pieces between maximal runs of whitespace, the empty
  pieces at either end included. The flag says that the scan is inside a run of
  whitespace whose separator has already closed the piece before it.
\<close>

fun split_ws_from :: "bool \<Rightarrow> jsstring \<Rightarrow> jsstring \<Rightarrow> jsstring list" where
  "split_ws_from inrun cur [] = [cur]"
| "split_ws_from inrun cur (c # cs) =
     (if is_ws c then
        (if inrun then split_ws_from True [] cs else cur # split_ws_from True [] cs)
      else split_ws_from False (cur @ [c]) cs)"

definition split_ws :: "jsstring \<Rightarrow> jsstring list" where
  "split_ws s = split_ws_from False [] s"

section \<open>Data model\<close>

text \<open>
  \<open>TextStyle.heading\<close> is \<open>number | null\<close> in the source and indexes the six-entry
  table of \<open>applyStyle\<close>; the levels are a datatype here, so a level that the table
  does not hold is excluded by type. No code of the repository ever stores a
  heading in a style: \<open>parseInlineMarkdown\<close> is the only producer and writes null.
\<close>

datatype hlevel = H1 | H2 | H3 | H4 | H5 | H6

datatype listKind = Ordered | Unordered

record TextStyle =
  bold :: bool
  italic :: bool
  heading :: "hlevel option"
  isList :: bool
  listType :: "listKind option"
  listLevel :: int
  indentation :: real

record TextSegment =
  seg_text :: jsstring
  seg_style :: TextStyle

datatype alignment = AlignLeft | AlignCenter | AlignRight | AlignJustify

record PDFMarkdownOptions =
  maxWidth :: real
  align :: "alignment option"
  fontSize :: real
  lineHeight :: real
  font :: jsstring

section \<open>The measurement and drawing surface\<close>

text \<open>
  The jsPDF document is an external collaborator: a store of the current font, font
  style and font size, and a page on which text is drawn. What \<open>getTextWidth\<close>
  answers is a parameter of every function below: a metric gives the width of a
  text under a font name, a font style and a font size, and nothing is assumed of
  it. Every \<open>doc.text\<close> call is logged with the font state it was made under.
\<close>

datatype fontStyle = Normal | Bold | Italic | BoldItalic

type_synonym metric = "jsstring \<Rightarrow> fontStyle \<Rightarrow> real \<Rightarrow> jsstring \<Rightarrow> real"

record drawCall =
  d_text :: jsstring
  d_x :: real
  d_y :: real
  d_fontName :: jsstring
  d_fontStyle :: fontStyle
  d_fontSize :: real

record doc =
  fontName :: jsstring
  curFontStyle :: fontStyle
  curFontSize :: real
  pageHeight :: real
  drawn :: "drawCall list"

definition setFont :: "doc \<Rightarrow> jsstring \<Rightarrow> fontStyle \<Rightarrow> doc" where
  "setFont d f s = d\<lparr>fontName := f, curFontStyle := s\<rparr>"

definition setFontSize :: "doc \<Rightarrow> real \<Rightarrow> doc" where
  "setFontSize d n = d\<lparr>curFontSize := n\<rparr>"

definition getFontSize :: "doc \<Rightarrow> real" where
  "getFontSize d = curFontSize d"

definition getTextWidth :: "metric \<Rightarrow> doc \<Rightarrow> jsstring \<Rightarrow> real" where
  "getTextWidth tw d t = tw (fontName d) (curFontStyle d) (curFontSize d) t"

definition drawText :: "doc \<Rightarrow> jsstring \<Rightarrow> real \<Rightarrow> real \<Rightarrow> doc" where
  "drawText d t x y =
     d\<lparr>drawn := drawn d @
        [\<lparr>d_text = t, d_x = x, d_y = y, d_fontName = fontName d,
          d_fontStyle = curFontStyle d, d_fontSize = curFontSize d\<rparr>]\<rparr>"

section \<open>applyStyle\<close>

definition headingSizes :: "real \<Rightarrow> hlevel \<Rightarrow> real" where
  "headingSizes baseFontSize h =
     (case h of
        H1 \<Rightarrow> baseFontSize * 2
      | H2 \<Rightarrow> baseFontSize * 1.5
      | H3 \<Rightarrow> baseFontSize * 1.17
      | H4 \<Rightarrow> baseFontSize * 1
      | H5 \<Rightarrow> baseFontSize * 0.83
      | H6 \<Rightarrow> baseFontSize * 0.67)"

definition styleFont :: "TextStyle \<Rightarrow> fontStyle" where
  "styleFont style =
     (if bold style \<and> italic style then BoldItalic
      else if bold style then Bold
      else if italic style then Italic
      else Normal)"

definition applyStyle :: "doc \<Rightarrow> TextStyle \<Rightarrow> real \<Rightarrow> jsstring \<Rightarrow> doc" where
  "applyStyle d style baseFontSize fnt =
     (let d1 = setFont d fnt (styleFont style)
      in case heading style of
           Some h \<Rightarrow> setFontSize d1 (headingSizes baseFontSize h)
         | None \<Rightarrow> setFontSize d1 baseFontSize)"

section \<open>parseInlineMarkdown\<close>

definition plainStyle :: TextStyle where
  "plainStyle = \<lparr>bold = False, italic = False, heading = None, isList = False,
                 listType = None, listLevel = 0, indentation = 0\<rparr>"

definition flush :: "TextSegment list \<Rightarrow> jsstring \<Rightarrow> TextStyle \<Rightarrow> TextSegment list" where
  "flush segments currentText currentStyle =
     (if currentText \<noteq> [] then segments @ [\<lparr>seg_text = currentText, seg_style = currentStyle\<rparr>]
      else segments)"

text \<open>
  The \<open>while\<close> loop over the index \<open>i\<close>, as a recursion over the text that is left.
  \<open>text[i + 1]\<close> past the end is \<open>undefined\<close>, which no marker equals.
\<close>

fun inlineLoop :: "jsstring \<Rightarrow> TextSegment list \<Rightarrow> jsstring \<Rightarrow> TextStyle \<Rightarrow> TextSegment list" where
  "inlineLoop [] segments currentText currentStyle = flush segments currentText currentStyle"
| "inlineLoop [c] segments currentText currentStyle =
     (if c = star \<or> c = underscore then
        inlineLoop [] (flush segments currentText currentStyle) []
          (currentStyle\<lparr>italic := \<not> italic currentStyle\<rparr>)
      else inlineLoop [] segments (currentText @ [c]) currentStyle)"
| "inlineLoop (c # c' # rest) segments currentText currentStyle =
     (if c = star \<or> c = underscore then
        (if c' = c then
           inlineLoop rest (flush segments currentText currentStyle) []
             (currentStyle\<lparr>bold := \<not> bold currentStyle\<rparr>)
         else
           inlineLoop (c' # rest) (flush segments currentText currentStyle) []
             (currentStyle\<lparr>italic := \<not> italic currentStyle\<rparr>))
      else inlineLoop (c' # rest) segments (currentText @ [c]) currentStyle)"

definition parseInlineMarkdown :: "jsstring \<Rightarrow> TextSegment list" where
  "parseInlineMarkdown t = inlineLoop t [] [] plainStyle"

section \<open>splitWordIfNeeded\<close>

definition mkSeg :: "jsstring \<Rightarrow> TextStyle \<Rightarrow> TextSegment" where
  "mkSeg t style = \<lparr>seg_text = t, seg_style = style\<rparr>"

text \<open>The \<open>for\<close> loop over the characters of the word; the document is only read.\<close>

fun splitLoop ::
  "metric \<Rightarrow> doc \<Rightarrow> real \<Rightarrow> TextStyle \<Rightarrow> jsstring \<Rightarrow> TextSegment list \<Rightarrow> jsstring \<Rightarrow> TextSegment list"
where
  "splitLoop tw d maxW style [] result currentPart =
     (if length currentPart > 0 then result @ [mkSeg currentPart style] else result)"
| "splitLoop tw d maxW style (c # cs) result currentPart =
     (let testPart = currentPart @ [c];
          testWidth = getTextWidth tw d testPart
      in if testWidth > maxW * 0.95 then
           (if length currentPart \<ge> 2 then
              splitLoop tw d maxW style cs (result @ [mkSeg (currentPart @ [hyphen]) style]) [c]
            else if length currentPart > 0 then
              splitLoop tw d maxW style cs (result @ [mkSeg currentPart style]) [c]
            else
              splitLoop tw d maxW style cs (result @ [mkSeg [c] style]) [])
         else splitLoop tw d maxW style cs result (currentPart @ [c]))"

text \<open>The function returns its fragments and leaves the document with the style applied.\<close>

definition splitWordIfNeeded ::
  "metric \<Rightarrow> jsstring \<Rightarrow> TextStyle \<Rightarrow> doc \<Rightarrow> real \<Rightarrow> TextSegment list \<times> doc"
where
  "splitWordIfNeeded tw word style d maxW =
     (let d1 = applyStyle d style (getFontSize d) (fontName d)
      in if getTextWidth tw d1 word \<le> maxW then ([mkSeg word style], d1)
         else (splitLoop tw d1 maxW style word [] [], d1))"

section \<open>calculateIndentation\<close>

text \<open>
  The tail \<open>\s+(.+)$\<close> shared by the three block patterns, on what follows the
  marker: the whitespace run is taken greedily and the content must reach the end
  of the string without a line terminator. When nothing follows the run, the
  matcher gives the last whitespace character back to the content.
\<close>

definition matchTail :: "jsstring \<Rightarrow> jsstring option" where
  "matchTail r =
     (let w = takeWhile is_ws r; content = dropWhile is_ws r
      in if w = [] then None
         else if content \<noteq> [] then
           (if \<forall>c \<in> set content. \<not> is_lt c then Some content else None)
         else if length w \<ge> 2 \<and> \<not> is_lt (last w) then Some [last w]
         else None)"

text \<open>\<open>/^(\s*(?:[-*]|\d+\.)\s+)/\<close>, as a test.\<close>

definition listMarkerMatch :: "jsstring \<Rightarrow> bool" where
  "listMarkerMatch t =
     (case dropWhile is_ws t of
        [] \<Rightarrow> False
      | c # r \<Rightarrow>
          if c = hyphen \<or> c = star then (case r of [] \<Rightarrow> False | e # _ \<Rightarrow> is_ws e)
          else
            (let ds = takeWhile is_digit (c # r); r1 = dropWhile is_digit (c # r)
             in ds \<noteq> [] \<and>
                (case r1 of
                   [] \<Rightarrow> False
                 | p # r2 \<Rightarrow> p = dot \<and> (case r2 of [] \<Rightarrow> False | e # _ \<Rightarrow> is_ws e))))"

definition calculateIndentation :: "jsstring \<Rightarrow> real" where
  "calculateIndentation t =
     (let baseIndent = real (length (takeWhile is_ws t) div 2) * 0.25;
          indentation = 0 + baseIndent
      in if listMarkerMatch t then indentation + 0.25
         else if baseIndent > 0 then indentation + 0.75
         else if length (trim t) > 0 then indentation + 0.25
         else indentation)"

section \<open>renderJustifiedLine\<close>

text \<open>Each \<open>forEach\<close> is a left fold that threads the document and the loop's variable.\<close>

definition fallbackStep :: "metric \<Rightarrow> real \<Rightarrow> doc \<times> real \<Rightarrow> TextSegment \<Rightarrow> doc \<times> real" where
  "fallbackStep tw y acc segment =
     (case acc of (d, currentX) \<Rightarrow>
        let d1 = applyStyle d (seg_style segment) (getFontSize d) (fontName d);
            d2 = drawText d1 (seg_text segment) currentX y
        in (d2, currentX +
                getTextWidth tw d2
                  (seg_text segment @ (if seg_text segment = [space] then [] else [space]))))"

definition measureStep :: "metric \<Rightarrow> doc \<times> real \<Rightarrow> TextSegment \<Rightarrow> doc \<times> real" where
  "measureStep tw acc segment =
     (case acc of (d, totalTextWidth) \<Rightarrow>
        let d1 = applyStyle d (seg_style segment) (getFontSize d) (fontName d)
        in (d1, totalTextWidth + getTextWidth tw d1 (seg_text segment)))"

fun justifyLoop ::
  "metric \<Rightarrow> real \<Rightarrow> real \<Rightarrow> nat \<Rightarrow> TextSegment list \<Rightarrow> nat \<Rightarrow> doc \<Rightarrow> real \<Rightarrow> doc \<times> real"
where
  "justifyLoop tw y extraSpacePerGap n [] index d currentX = (d, currentX)"
| "justifyLoop tw y extraSpacePerGap n (segment # rest) index d currentX =
     (let d1 = applyStyle d (seg_style segment) (getFontSize d) (fontName d);
          d2 = drawText d1 (seg_text segment) currentX y;
          segmentWidth = getTextWidth tw d2 (seg_text segment);
          x1 = currentX + segmentWidth;
          x2 = (if seg_text segment = [space] \<and> int index < int n - 1
                then x1 + extraSpacePerGap else x1)
      in justifyLoop tw y extraSpacePerGap n rest (index + 1) d2 x2)"

definition renderJustifiedLine ::
  "metric \<Rightarrow> doc \<Rightarrow> TextSegment list \<Rightarrow> real \<Rightarrow> real \<Rightarrow> real \<Rightarrow> bool \<Rightarrow> doc"
where
  "renderJustifiedLine tw d segments x y maxW isLastLine =
     (if isLastLine \<or> length segments \<le> 1 then
        fst (foldl (fallbackStep tw y) (d, x) segments)
      else
        let numberOfSpaces = length (filter (\<lambda>s. seg_text s = [space]) segments);
            (d1, totalTextWidth) = foldl (measureStep tw) (d, 0) segments;
            remainingSpace = max 0 (maxW - totalTextWidth);
            extraSpacePerGap =
              (if numberOfSpaces > 0 then remainingSpace / real numberOfSpaces else 0)
        in fst (justifyLoop tw y extraSpacePerGap (length segments) segments 0 d1 x))"

section \<open>splitTextToLines\<close>

text \<open>
  The closure variables of the function, with the document. An assignment to an array
  element past the end extends the array; a hole it would leave is an empty line,
  which the final filter drops as it skips a hole.
\<close>

record lbState =
  lb_doc :: doc
  lines :: "TextSegment list list"
  currentLine :: nat
  currentLineWidth :: real
  currentLineSegments :: "TextSegment list"

definition arr_set :: "'a list list \<Rightarrow> nat \<Rightarrow> 'a list \<Rightarrow> 'a list list" where
  "arr_set xs i v =
     (if i < length xs then xs[i := v] else xs @ replicate (i - length xs) [] @ [v])"

definition commitLine :: "lbState \<Rightarrow> lbState" where
  "commitLine s =
     (if length (currentLineSegments s) > 0 then
        s\<lparr>lines := arr_set (arr_set (lines s) (currentLine s) (currentLineSegments s))
                     (currentLine s + 1) [],
          currentLine := currentLine s + 1,
          currentLineSegments := [],
          currentLineWidth := 0\<rparr>
      else s)"

fun placeParts :: "metric \<Rightarrow> lbState \<Rightarrow> TextSegment list \<Rightarrow> nat \<Rightarrow> lbState" where
  "placeParts tw s [] index = s"
| "placeParts tw s (part # rest) index =
     (let s1 = (if index > 0 then commitLine s else s);
          s2 = s1\<lparr>currentLineSegments := currentLineSegments s1 @ [part],
                  currentLineWidth := getTextWidth tw (lb_doc s1) (seg_text part)\<rparr>
      in placeParts tw s2 rest (index + 1))"

definition wordStep ::
  "metric \<Rightarrow> jsstring \<Rightarrow> real \<Rightarrow> real \<Rightarrow> TextStyle \<Rightarrow> lbState \<Rightarrow> jsstring \<Rightarrow> lbState"
where
  "wordStep tw fnt availableWidth spaceWidth style s word =
     (if word = [] then s
      else
        let d1 = applyStyle (lb_doc s) style (getFontSize (lb_doc s)) fnt;
            s1 = s\<lparr>lb_doc := d1\<rparr>;
            wordWidth = getTextWidth tw d1 word;
            totalWidth = currentLineWidth s1 +
              (if length (currentLineSegments s1) > 0 then spaceWidth else 0) + wordWidth
        in if totalWidth \<le> availableWidth then
             let s2 = (if length (currentLineSegments s1) > 0 then
                         s1\<lparr>currentLineSegments := currentLineSegments s1 @ [mkSeg [space] style],
                            currentLineWidth := currentLineWidth s1 + spaceWidth\<rparr>
                       else s1)
             in s2\<lparr>currentLineSegments := currentLineSegments s2 @ [mkSeg word style],
                   currentLineWidth := currentLineWidth s2 + wordWidth\<rparr>
           else if wordWidth \<le> availableWidth then
             let s2 = commitLine s1
             in s2\<lparr>currentLineSegments := currentLineSegments s2 @ [mkSeg word style],
                   currentLineWidth := wordWidth\<rparr>
           else
             let s2 = (if length (currentLineSegments s1) > 0 then commitLine s1 else s1);
                 (parts, d2) = splitWordIfNeeded tw word style (lb_doc s2) availableWidth
             in placeParts tw (s2\<lparr>lb_doc := d2\<rparr>) parts 0)"

definition segmentStep ::
  "metric \<Rightarrow> jsstring \<Rightarrow> real \<Rightarrow> real \<Rightarrow> lbState \<Rightarrow> TextSegment \<Rightarrow> lbState"
where
  "segmentStep tw fnt availableWidth spaceWidth s segment =
     foldl (wordStep tw fnt availableWidth spaceWidth (seg_style segment)) s
       (split_ws (seg_text segment))"

text \<open>The post-pass on one line: measure it again and, if it is too wide, rebuild it.\<close>

definition remeasureStep :: "metric \<Rightarrow> jsstring \<Rightarrow> doc \<times> real \<Rightarrow> TextSegment \<Rightarrow> doc \<times> real" where
  "remeasureStep tw fnt acc segment =
     (case acc of (d, lineWidth) \<Rightarrow>
        let d1 = applyStyle d (seg_style segment) (getFontSize d) fnt
        in (d1, lineWidth + getTextWidth tw d1 (seg_text segment)))"

definition admitPart ::
  "metric \<Rightarrow> doc \<Rightarrow> real \<Rightarrow> TextSegment list \<times> real \<Rightarrow> TextSegment \<Rightarrow> TextSegment list \<times> real"
where
  "admitPart tw d availableWidth acc part =
     (case acc of (newLine, currentWidth) \<Rightarrow>
        if currentWidth + getTextWidth tw d (seg_text part) \<le> availableWidth then
          (newLine @ [part], currentWidth + getTextWidth tw d (seg_text part))
        else (newLine, currentWidth))"

definition rebuildStep ::
  "metric \<Rightarrow> real \<Rightarrow> real \<Rightarrow> doc \<times> TextSegment list \<times> real \<Rightarrow> TextSegment \<Rightarrow>
   doc \<times> TextSegment list \<times> real"
where
  "rebuildStep tw availableWidth spaceWidth acc segment =
     (case acc of (d, newLine, currentWidth) \<Rightarrow>
        if seg_text segment = [space] then
          (if currentWidth + spaceWidth \<le> availableWidth then
             (d, newLine @ [segment], currentWidth + spaceWidth)
           else (d, newLine, currentWidth))
        else
          let (parts, d1) = splitWordIfNeeded tw (seg_text segment) (seg_style segment) d
                              (availableWidth - currentWidth);
              (newLine1, currentWidth1) =
                foldl (admitPart tw d1 availableWidth) (newLine, currentWidth) parts
          in (d1, newLine1, currentWidth1))"

definition verifyLine ::
  "metric \<Rightarrow> jsstring \<Rightarrow> real \<Rightarrow> real \<Rightarrow> doc \<Rightarrow> TextSegment list \<Rightarrow> TextSegment list \<times> doc"
where
  "verifyLine tw fnt availableWidth spaceWidth d line =
     (let (d1, lineWidth) = foldl (remeasureStep tw fnt) (d, 0) line
      in if lineWidth > availableWidth then
           (let (d2, newLine, currentWidth) =
                  foldl (rebuildStep tw availableWidth spaceWidth) (d1, [], 0) line
            in (newLine, d2))
         else (line, d1))"

fun verifyLines ::
  "metric \<Rightarrow> jsstring \<Rightarrow> real \<Rightarrow> real \<Rightarrow> doc \<Rightarrow> TextSegment list list \<Rightarrow>
   TextSegment list list \<times> doc"
where
  "verifyLines tw fnt availableWidth spaceWidth d [] = ([], d)"
| "verifyLines tw fnt availableWidth spaceWidth d (line # rest) =
     (let (line1, d1) = verifyLine tw fnt availableWidth spaceWidth d line;
          (rest1, d2) = verifyLines tw fnt availableWidth spaceWidth d1 rest
      in (line1 # rest1, d2))"

definition splitTextToLines ::
  "metric \<Rightarrow> doc \<Rightarrow> TextSegment list \<Rightarrow> real \<Rightarrow> real \<Rightarrow> jsstring \<Rightarrow>
   TextSegment list list \<times> doc"
where
  "splitTextToLines tw d segments maxW baseIndentation fnt =
     (let indentationWidth = baseIndentation * getFontSize d;
          availableWidth = maxW - indentationWidth;
          spaceWidth = getTextWidth tw d [space];
          s0 = \<lparr>lb_doc = d, lines = [[]], currentLine = 0, currentLineWidth = 0,
                currentLineSegments = []\<rparr>;
          s1 = foldl (segmentStep tw fnt availableWidth spaceWidth) s0 segments;
          s2 = (if length (currentLineSegments s1) > 0 then commitLine s1 else s1)
      in verifyLines tw fnt availableWidth spaceWidth (lb_doc s2)
           (filter (\<lambda>line. length line > 0) (lines s2)))"

section \<open>parsePDFMarkdown\<close>

text \<open>\<open>text.replace(/---/g, '\n')\<close>: every triple of hyphens, left to right, without overlap.\<close>

fun replaceDashes :: "jsstring \<Rightarrow> jsstring" where
  "replaceDashes (a # b # c # rest) =
     (if a = hyphen \<and> b = hyphen \<and> c = hyphen then newline # replaceDashes rest
      else a # replaceDashes (b # c # rest))"
| "replaceDashes t = t"

text \<open>
  \<open>text.replace(/\n{2,}/g, '\n')\<close>: every maximal run of two or more newlines becomes
  one newline, so a newline that another newline follows is dropped.
\<close>

fun collapseNewlines :: "jsstring \<Rightarrow> jsstring" where
  "collapseNewlines (a # b # rest) =
     (if a = newline \<and> b = newline then collapseNewlines (b # rest)
      else a # collapseNewlines (b # rest))"
| "collapseNewlines t = t"

text \<open>\<open>text.split('\n')\<close>.\<close>

fun splitLinesFrom :: "jsstring \<Rightarrow> jsstring \<Rightarrow> jsstring list" where
  "splitLinesFrom cur [] = [cur]"
| "splitLinesFrom cur (c # cs) =
     (if c = newline then cur # splitLinesFrom [] cs else splitLinesFrom (cur @ [c]) cs)"

definition splitLines :: "jsstring \<Rightarrow> jsstring list" where
  "splitLines t = splitLinesFrom [] t"

text \<open>
  The three block patterns, on the trimmed line. A greedy run that must be followed
  by a character outside its class can only match in full, so no other split of the
  line is ever tried with success.
\<close>

text \<open>\<open>/^(#{1,6})\s+(.+)$/\<close>: the level and the content.\<close>

definition headerMatch :: "jsstring \<Rightarrow> (nat \<times> jsstring) option" where
  "headerMatch line =
     (let hs = takeWhile (\<lambda>c. c = hash) line; r = dropWhile (\<lambda>c. c = hash) line
      in if 1 \<le> length hs \<and> length hs \<le> 6 then
           (case matchTail r of None \<Rightarrow> None | Some content \<Rightarrow> Some (length hs, content))
         else None)"

text \<open>\<open>/^(\d+)\.\s+(.+)$/\<close>: the number and the content.\<close>

definition orderedListMatch :: "jsstring \<Rightarrow> (jsstring \<times> jsstring) option" where
  "orderedListMatch line =
     (let ds = takeWhile is_digit line; r = dropWhile is_digit line
      in if ds = [] then None
         else (case r of
                 [] \<Rightarrow> None
               | p # r1 \<Rightarrow>
                   if p = dot then
                     (case matchTail r1 of None \<Rightarrow> None | Some content \<Rightarrow> Some (ds, content))
                   else None))"

text \<open>\<open>/^[-*]\s+(.+)$/\<close>: the content.\<close>

definition unorderedListMatch :: "jsstring \<Rightarrow> jsstring option" where
  "unorderedListMatch line =
     (case line of
        [] \<Rightarrow> None
      | c # r \<Rightarrow> if c = hyphen \<or> c = star then matchTail r else None)"

text \<open>
  The branch of a sub-line that is not justified: measure the line, choose the start
  by the alignment, draw. The source holds it four times; the copy of the two list
  blocks centres within the width left of the marker, the copy of the heading and
  of the paragraph within the whole width.
\<close>

definition sizeStep :: "metric \<Rightarrow> PDFMarkdownOptions \<Rightarrow> doc \<times> real \<Rightarrow> TextSegment \<Rightarrow> doc \<times> real" where
  "sizeStep tw options acc segment =
     (case acc of (d, totalWidth) \<Rightarrow>
        let d1 = applyStyle d (seg_style segment) (fontSize options) (font options)
        in (d1, totalWidth + getTextWidth tw d1 (seg_text segment)))"

definition drawStep ::
  "metric \<Rightarrow> PDFMarkdownOptions \<Rightarrow> real \<Rightarrow> doc \<times> real \<Rightarrow> TextSegment \<Rightarrow> doc \<times> real"
where
  "drawStep tw options currentY acc segment =
     (case acc of (d, xOffset) \<Rightarrow>
        let d1 = applyStyle d (seg_style segment) (fontSize options) (font options);
            d2 = drawText d1 (seg_text segment) xOffset currentY
        in (d2, xOffset + getTextWidth tw d2 (seg_text segment)))"

definition renderAligned ::
  "metric \<Rightarrow> PDFMarkdownOptions \<Rightarrow> doc \<Rightarrow> TextSegment list \<Rightarrow> real \<Rightarrow> real \<Rightarrow>
   (real \<Rightarrow> real) \<Rightarrow> real \<Rightarrow> doc"
where
  "renderAligned tw options d lineSegments x xStart centred currentY =
     (let (d1, totalWidth) = foldl (sizeStep tw options) (d, 0) lineSegments;
          xOffset =
            (if align options = Some AlignCenter then centred totalWidth
             else if align options = Some AlignRight then x + maxWidth options - totalWidth
             else xStart)
      in fst (foldl (drawStep tw options currentY) (d1, xOffset) lineSegments))"

text \<open>One sub-line of a heading or of a paragraph.\<close>

definition placeTextLine ::
  "metric \<Rightarrow> PDFMarkdownOptions \<Rightarrow> real \<Rightarrow> real \<Rightarrow> doc \<Rightarrow> TextSegment list \<Rightarrow> real \<Rightarrow> bool \<Rightarrow> doc"
where
  "placeTextLine tw options x baseIndentation d lineSegments currentY isLast =
     (let xOffset = x + (baseIndentation * fontSize options)
      in if align options = Some AlignJustify then
           renderJustifiedLine tw d lineSegments xOffset currentY
             (maxWidth options - (baseIndentation * fontSize options)) isLast
         else
           renderAligned tw options d lineSegments x xOffset
             (\<lambda>totalWidth. x + (maxWidth options - totalWidth) / 2) currentY)"

text \<open>One sub-line of an ordered or of an unordered list item.\<close>

definition placeListLine ::
  "metric \<Rightarrow> PDFMarkdownOptions \<Rightarrow> real \<Rightarrow> real \<Rightarrow> doc \<Rightarrow> TextSegment list \<Rightarrow> real \<Rightarrow> bool \<Rightarrow> doc"
where
  "placeListLine tw options x listIndent d lineSegments currentY isLast =
     (let xOffset = x + listIndent + 5
      in if align options = Some AlignJustify then
           renderJustifiedLine tw d lineSegments xOffset currentY
             (maxWidth options - (listIndent + 5)) isLast
         else
           renderAligned tw options d lineSegments x xOffset
             (\<lambda>totalWidth. x + listIndent + 5 +
                 (maxWidth options - listIndent - 5 - totalWidth) / 2) currentY)"

text \<open>
  \<open>lines.forEach\<close> of a block: a sub-line below the page bottom is skipped, and
  the cursor moves down after every sub-line that was placed but the last.
\<close>

fun blockLines ::
  "(doc \<Rightarrow> TextSegment list \<Rightarrow> real \<Rightarrow> bool \<Rightarrow> doc) \<Rightarrow> real \<Rightarrow> real \<Rightarrow> nat \<Rightarrow>
   TextSegment list list \<Rightarrow> nat \<Rightarrow> real \<Rightarrow> doc \<Rightarrow> real \<times> doc"
where
  "blockLines place lineH maxY n [] lineIndex currentY d = (currentY, d)"
| "blockLines place lineH maxY n (lineSegments # rest) lineIndex currentY d =
     (if currentY > maxY then blockLines place lineH maxY n rest (lineIndex + 1) currentY d
      else
        let d1 = place d lineSegments currentY (int lineIndex = int n - 1);
            y1 = (if int lineIndex < int n - 1 then currentY + lineH else currentY)
        in blockLines place lineH maxY n rest (lineIndex + 1) y1 d1)"

datatype block =
    Heading nat jsstring
  | OrderedItem jsstring jsstring
  | UnorderedItem jsstring
  | Paragraph

text \<open>The chain of the three \<open>match\<close> tests of the loop body, in its order.\<close>

definition classify :: "jsstring \<Rightarrow> block" where
  "classify line =
     (case headerMatch line of
        Some (level, content) \<Rightarrow> Heading level content
      | None \<Rightarrow>
          (case orderedListMatch line of
             Some (listNumber, content) \<Rightarrow> OrderedItem listNumber content
           | None \<Rightarrow>
               (case unorderedListMatch line of
                  Some content \<Rightarrow> UnorderedItem content
                | None \<Rightarrow> Paragraph)))"

text \<open>
  The body of a block once the cursor has moved down and the page test has passed:
  what is drawn, and the cursor and the document it leaves.
\<close>

definition renderBlock ::
  "metric \<Rightarrow> PDFMarkdownOptions \<Rightarrow> real \<Rightarrow> real \<Rightarrow> real \<Rightarrow> real \<Rightarrow> jsstring \<Rightarrow> block \<Rightarrow>
   real \<Rightarrow> doc \<Rightarrow> real \<times> doc"
where
  "renderBlock tw options x lineH maxY baseIndentation line b currentY d =
     (case b of
        Heading level content \<Rightarrow>
          let d1 = setFontSize d (fontSize options * (2.5 - (real level * 0.3)));
              d2 = setFont d1 (font options) Bold;
              segments = parseInlineMarkdown content;
              (lns, d3) = splitTextToLines tw d2 segments (maxWidth options) baseIndentation
                            (font options);
              (y1, d4) = blockLines (placeTextLine tw options x baseIndentation) lineH maxY
                           (length lns) lns 0 currentY d3;
              d5 = setFontSize d4 (fontSize options);
              d6 = setFont d5 (font options) Normal
          in (y1, d6)
      | OrderedItem listNumber content \<Rightarrow>
          let listIndent = baseIndentation * fontSize options;
              d1 = drawText d (listNumber @ [dot]) (x + listIndent) currentY;
              segments = parseInlineMarkdown content;
              (lns, d2) = splitTextToLines tw d1 segments (maxWidth options - (listIndent + 5))
                            baseIndentation (font options)
          in blockLines (placeListLine tw options x listIndent) lineH maxY
               (length lns) lns 0 currentY d2
      | UnorderedItem content \<Rightarrow>
          let listIndent = baseIndentation * fontSize options;
              d1 = drawText d [bullet] (x + listIndent) currentY;
              segments = parseInlineMarkdown content;
              (lns, d2) = splitTextToLines tw d1 segments (maxWidth options - (listIndent + 5))
                            baseIndentation (font options)
          in blockLines (placeListLine tw options x listIndent) lineH maxY
               (length lns) lns 0 currentY d2
      | Paragraph \<Rightarrow>
          let segments = parseInlineMarkdown line;
              (lns, d1) = splitTextToLines tw d segments (maxWidth options) baseIndentation
                            (font options)
          in blockLines (placeTextLine tw options x baseIndentation) lineH maxY
               (length lns) lns 0 currentY d1)"

text \<open>The \<open>for\<close> loop over the lines of the text, with its three returns.\<close>

fun pdfLoop ::
  "metric \<Rightarrow> PDFMarkdownOptions \<Rightarrow> real \<Rightarrow> real \<Rightarrow> real \<Rightarrow> jsstring list \<Rightarrow> real \<Rightarrow> doc \<Rightarrow>
   real \<times> doc"
where
  "pdfLoop tw options x lineH maxY [] currentY d = (currentY, d)"
| "pdfLoop tw options x lineH maxY (raw # rest) currentY d =
     (let baseIndentation = calculateIndentation raw;
          line = trim raw
      in if line = [] then pdfLoop tw options x lineH maxY rest (currentY + lineH) d
         else if currentY + lineH > maxY then (currentY, d)
         else
           let y1 = currentY + lineH
           in if y1 > maxY then (y1, d)
              else
                (case renderBlock tw options x lineH maxY baseIndentation line (classify line) y1 d
                 of (y2, d1) \<Rightarrow> pdfLoop tw options x lineH maxY rest y2 d1))"

definition parsePDFMarkdown ::
  "metric \<Rightarrow> doc \<Rightarrow> jsstring \<Rightarrow> real \<Rightarrow> real \<Rightarrow> PDFMarkdownOptions \<Rightarrow> real \<times> doc"
where
  "parsePDFMarkdown tw d t x y options =
     (if t = [] then (y, d)
      else
        let t1 = replaceDashes t;
            t2 = collapseNewlines t1;
            d1 = setFont d (font options) Normal;
            d2 = setFontSize d1 (fontSize options);
            lineH = fontSize options * 0.352778 * lineHeight options;
            textLines = splitLines t2;
            maxY = pageHeight d2 - 20
        in pdfLoop tw options x lineH maxY textLines y d2)"

section \<open>Auxiliary definitions\<close>

text \<open>
  A metric under which every code unit is one unit wide in every font, and a document
  on a page of height 32, whose bottom margin of 20 leaves 12.
\<close>

definition charMetric :: metric where
  "charMetric f s n t = real (length t)"

definition doc0 :: doc where
  "doc0 = \<lparr>fontName = str ''helvetica'', curFontStyle = Normal, curFontSize = 10,
            pageHeight = 32, drawn = []\<rparr>"

text \<open>
  The loop of \<open>splitWordIfNeeded\<close> once more, recording for each fragment the block of
  the word it was cut from and whether a hyphen was appended to it.
\<close>

fun splitBlocks ::
  "metric \<Rightarrow> doc \<Rightarrow> real \<Rightarrow> jsstring \<Rightarrow> (jsstring \<times> bool) list \<Rightarrow> jsstring \<Rightarrow> (jsstring \<times> bool) list"
where
  "splitBlocks tw d maxW [] bs currentPart =
     (if length currentPart > 0 then bs @ [(currentPart, False)] else bs)"
| "splitBlocks tw d maxW (c # cs) bs currentPart =
     (if getTextWidth tw d (currentPart @ [c]) > maxW * 0.95 then
        (if length currentPart \<ge> 2 then splitBlocks tw d maxW cs (bs @ [(currentPart, True)]) [c]
         else if length currentPart > 0 then
           splitBlocks tw d maxW cs (bs @ [(currentPart, False)]) [c]
         else splitBlocks tw d maxW cs (bs @ [([c], False)]) [])
      else splitBlocks tw d maxW cs bs (currentPart @ [c]))"

definition blockText :: "jsstring \<times> bool \<Rightarrow> jsstring" where
  "blockText p = (if snd p then fst p @ [hyphen] else fst p)"

text \<open>
  Every hyphenated block so far has two characters or more, and is followed by another
  block or by a part that is still open.
\<close>

definition hyphens_inner :: "(jsstring \<times> bool) list \<Rightarrow> jsstring \<Rightarrow> bool" where
  "hyphens_inner bs cur \<longleftrightarrow>
     (\<forall>i < length bs. snd (bs ! i) \<longrightarrow>
        2 \<le> length (fst (bs ! i)) \<and> (Suc i < length bs \<or> cur \<noteq> []))"

text \<open>
  What a sequence of drawing calls looks like when every segment is drawn under its own
  font style, at one font name and size, and the cursor advances by \<open>adv\<close> after each
  segment: the common shape of left-aligned and of justified placement.
\<close>

definition naturalWidth :: "metric \<Rightarrow> jsstring \<Rightarrow> real \<Rightarrow> TextSegment \<Rightarrow> real" where
  "naturalWidth tw f n s = tw f (styleFont (seg_style s)) n (seg_text s)"

definition callAt :: "jsstring \<Rightarrow> real \<Rightarrow> TextSegment \<Rightarrow> real \<Rightarrow> real \<Rightarrow> drawCall" where
  "callAt f n s x y =
     \<lparr>d_text = seg_text s, d_x = x, d_y = y, d_fontName = f,
      d_fontStyle = styleFont (seg_style s), d_fontSize = n\<rparr>"

fun layoutCalls ::
  "(TextSegment \<Rightarrow> real) \<Rightarrow> jsstring \<Rightarrow> real \<Rightarrow> real \<Rightarrow> TextSegment list \<Rightarrow> real \<Rightarrow> drawCall list"
where
  "layoutCalls adv f n y [] x = []"
| "layoutCalls adv f n y (s # rest) x = callAt f n s x y # layoutCalls adv f n y rest (x + adv s)"

text \<open>
  The gap distribution of the justifier as the code computes it, with the total taken
  over all segments of the line, and as the specification words it, with the total taken
  over the segments that are not gap markers.
\<close>

definition isGap :: "TextSegment \<Rightarrow> bool" where
  "isGap s \<longleftrightarrow> seg_text s = [space]"

definition extraPerGap :: "metric \<Rightarrow> jsstring \<Rightarrow> real \<Rightarrow> real \<Rightarrow> TextSegment list \<Rightarrow> real" where
  "extraPerGap tw f n availableWidth segments =
     (let totalTextWidth = sum_list (map (naturalWidth tw f n) segments);
          numberOfGaps = length (filter isGap segments)
      in if numberOfGaps > 0 then max 0 (availableWidth - totalTextWidth) / real numberOfGaps
         else 0)"

definition extraPerGapClaimed :: "metric \<Rightarrow> jsstring \<Rightarrow> real \<Rightarrow> real \<Rightarrow> TextSegment list \<Rightarrow> real" where
  "extraPerGapClaimed tw f n availableWidth segments =
     (let totalTextWidth =
            sum_list (map (naturalWidth tw f n) (filter (\<lambda>s. \<not> isGap s) segments));
          numberOfGaps = length (filter isGap segments)
      in if numberOfGaps > 0 then max 0 (availableWidth - totalTextWidth) / real numberOfGaps
         else 0)"

definition justifiedAdvance :: "metric \<Rightarrow> jsstring \<Rightarrow> real \<Rightarrow> real \<Rightarrow> TextSegment \<Rightarrow> real" where
  "justifiedAdvance tw f n extra s = naturalWidth tw f n s + (if isGap s then extra else 0)"

text \<open>A line of two words with a gap marker between them, and options and a text to lay out.\<close>

definition lineAB :: "TextSegment list" where
  "lineAB = [mkSeg (str ''a'') plainStyle, mkSeg [space] plainStyle, mkSeg (str ''b'') plainStyle]"

definition opts0 :: PDFMarkdownOptions where
  "opts0 = \<lparr>maxWidth = 100, align = None, fontSize = 10, lineHeight = 500000 / 176389,
             font = str ''helvetica''\<rparr>"

definition twoBlocks :: jsstring where
  "twoBlocks = str ''# Title'' @ newline # str ''Second paragraph''"

text \<open>The one word \<open>a\<close>, as the tokenizer returns it.\<close>

definition segA :: "TextSegment list" where
  "segA = [mkSeg (str ''a'') plainStyle]"

text \<open>
  The measured width of a line: every segment under its own font style, at the font and
  the size of the call, a gap marker at the width of the space that \<open>splitTextToLines\<close>
  measured on entry.
\<close>

definition segWidth :: "metric \<Rightarrow> jsstring \<Rightarrow> real \<Rightarrow> real \<Rightarrow> TextSegment \<Rightarrow> real" where
  "segWidth tw f n sw s =
     (if seg_text s = [space] then sw else tw f (styleFont (seg_style s)) n (seg_text s))"

definition lineWidthOf :: "metric \<Rightarrow> jsstring \<Rightarrow> real \<Rightarrow> real \<Rightarrow> TextSegment list \<Rightarrow> real" where
  "lineWidthOf tw f n sw line = sum_list (map (segWidth tw f n sw) line)"

text \<open>
  The invariant of the greedy pass. A segment is well formed when its style has no
  heading and its text is a gap marker or holds no space. A line is admissible when it
  is empty, fits the available width, or is a single fragment of a forced split. The
  state keeps the font size of entry, accounts the width of the open line exactly, and
  holds admissible lines of well-formed segments only.
\<close>

definition okSeg :: "TextSegment \<Rightarrow> bool" where
  "okSeg s \<longleftrightarrow> heading (seg_style s) = None \<and> (seg_text s = [space] \<or> space \<notin> set (seg_text s))"

definition fitsLine :: "metric \<Rightarrow> jsstring \<Rightarrow> real \<Rightarrow> real \<Rightarrow> real \<Rightarrow> TextSegment list \<Rightarrow> bool" where
  "fitsLine tw f n sw a line \<longleftrightarrow>
     line = [] \<or> lineWidthOf tw f n sw line \<le> a \<or> (\<exists>p. line = [p] \<and> space \<notin> set (seg_text p))"

definition lbInv :: "metric \<Rightarrow> jsstring \<Rightarrow> real \<Rightarrow> real \<Rightarrow> real \<Rightarrow> lbState \<Rightarrow> bool" where
  "lbInv tw f n sw a s \<longleftrightarrow>
     curFontSize (lb_doc s) = n \<and>
     currentLineWidth s = lineWidthOf tw f n sw (currentLineSegments s) \<and>
     fitsLine tw f n sw a (currentLineSegments s) \<and>
     (\<forall>l \<in> set (lines s). fitsLine tw f n sw a l) \<and>
     (\<forall>l \<in> set (lines s). \<forall>p \<in> set l. okSeg p) \<and>
     (\<forall>p \<in> set (currentLineSegments s). okSeg p)"

text \<open>The invariant of the rebuilding fold of the post-pass.\<close>

definition rbInv ::
  "metric \<Rightarrow> jsstring \<Rightarrow> real \<Rightarrow> real \<Rightarrow> real \<Rightarrow> doc \<times> TextSegment list \<times> real \<Rightarrow> bool"
where
  "rbInv tw f n sw a acc \<longleftrightarrow>
     (case acc of (d, newLine, currentWidth) \<Rightarrow>
        curFontSize d = n \<and> fontName d = f \<and>
        currentWidth = lineWidthOf tw f n sw newLine \<and>
        (newLine = [] \<or> currentWidth \<le> a))"

text \<open>
  The advance of the fallback branch of \<open>renderJustifiedLine\<close> after a segment, and the
  start of a line by its alignment in the branch that is not justified.
\<close>

definition fallbackAdvance :: "metric \<Rightarrow> jsstring \<Rightarrow> real \<Rightarrow> TextSegment \<Rightarrow> real" where
  "fallbackAdvance tw f n s =
     tw f (styleFont (seg_style s)) n
       (seg_text s @ (if seg_text s = [space] then [] else [space]))"

definition alignedStart ::
  "PDFMarkdownOptions \<Rightarrow> real \<Rightarrow> real \<Rightarrow> (real \<Rightarrow> real) \<Rightarrow> real \<Rightarrow> real"
where
  "alignedStart options x xStart centred totalWidth =
     (if align options = Some AlignCenter then centred totalWidth
      else if align options = Some AlignRight then x + maxWidth options - totalWidth
      else xStart)"

text \<open>The state in which the greedy pass of \<open>splitTextToLines\<close> starts on \<open>doc0\<close>.\<close>

definition st0 :: lbState where
  "st0 = \<lparr>lb_doc = doc0, lines = [[]], currentLine = 0, currentLineWidth = 0,
      currentLineSegments = []\<rparr>"

text \<open>
  The one drawing call of a heading whose content is the single word \<open>w\<close>, as the
  code makes it: under justified alignment at the heading's size, otherwise at the base
  size and from the start of the alignment; in either case in the font style of the
  segment, which is normal for a word without markers.
\<close>

definition headingCall ::
  "metric \<Rightarrow> PDFMarkdownOptions \<Rightarrow> real \<Rightarrow> real \<Rightarrow> nat \<Rightarrow> jsstring \<Rightarrow> drawCall"
where
  "headingCall tw options x y level w =
     (if align options = Some AlignJustify then
        \<lparr>d_text = w, d_x = x + 0.25 * fontSize options, d_y = y, d_fontName = font options,
         d_fontStyle = Normal, d_fontSize = fontSize options * (2.5 - (real level * 0.3))\<rparr>
      else
        \<lparr>d_text = w,
         d_x = alignedStart options x (x + 0.25 * fontSize options)
                 (\<lambda>totalWidth. x + (maxWidth options - totalWidth) / 2)
                 (tw (font options) Normal (fontSize options) w),
         d_y = y, d_fontName = font options, d_fontStyle = Normal,
         d_fontSize = fontSize options\<rparr>)"

text \<open>Options under which the heading \<open>Title\<close> does not fit on one line.\<close>

definition optsNarrow :: PDFMarkdownOptions where
  "optsNarrow = opts0\<lparr>maxWidth := 8\<rparr>"

section \<open>The surface under a style without heading\<close>

lemmas surface = setFont_def setFontSize_def getFontSize_def getTextWidth_def drawText_def
  applyStyle_def styleFont_def headingSizes_def

lemma applyStyle_None:
  "heading st = None \<Longrightarrow>
   applyStyle d st n f = d\<lparr>fontName := f, curFontStyle := styleFont st, curFontSize := n\<rparr>"
  by (simp add: applyStyle_def setFont_def setFontSize_def)

lemma applyStyle_same:
  "heading st = None \<Longrightarrow>
   applyStyle d st (getFontSize d) (fontName d) = d\<lparr>curFontStyle := styleFont st\<rparr>"
  by (simp add: applyStyle_def setFont_def setFontSize_def getFontSize_def)

section \<open>The tokenizer\<close>

lemma inlineLoop_plain:
  "\<not> (c = star \<or> c = underscore) \<Longrightarrow>
   inlineLoop (c # r) segs cur st = inlineLoop r segs (cur @ [c]) st"
  by (cases r) simp_all

lemma inlineLoop_double:
  "c = star \<or> c = underscore \<Longrightarrow>
   inlineLoop (c # c # r) segs cur st =
   inlineLoop r (flush segs cur st) [] (st\<lparr>bold := \<not> bold st\<rparr>)"
  by simp

lemma inlineLoop_single:
  "c = star \<or> c = underscore \<Longrightarrow> r = [] \<or> hd r \<noteq> c \<Longrightarrow>
   inlineLoop (c # r) segs cur st =
   inlineLoop r (flush segs cur st) [] (st\<lparr>italic := \<not> italic st\<rparr>)"
  by (cases r) auto

lemma inlineLoop_run:
  "\<forall>c \<in> set pre. \<not> (c = star \<or> c = underscore) \<Longrightarrow>
   inlineLoop (pre @ r) segs cur st = inlineLoop r segs (cur @ pre) st"
proof (induction pre arbitrary: cur)
  case Nil
  then show ?case by simp
next
  case (Cons p ps)
  have "inlineLoop ((p # ps) @ r) segs cur st = inlineLoop (ps @ r) segs (cur @ [p]) st"
    using Cons.prems inlineLoop_plain [of p "ps @ r"] by simp
  also have "\<dots> = inlineLoop r segs ((cur @ [p]) @ ps) st"
    using Cons.IH [of "cur @ [p]"] Cons.prems by simp
  finally show ?case by simp
qed

lemma tokenize_example:
  "parseInlineMarkdown (str ''**bold** and *italic*'') =
     [\<lparr>seg_text = str ''bold'', seg_style = plainStyle\<lparr>bold := True\<rparr>\<rparr>,
      \<lparr>seg_text = str '' and '', seg_style = plainStyle\<rparr>,
      \<lparr>seg_text = str ''italic'', seg_style = plainStyle\<lparr>italic := True\<rparr>\<rparr>]"
  by (simp add: parseInlineMarkdown_def str_def flush_def plainStyle_def star_def underscore_def)

text \<open>
  C3. A run of text without markers that a doubled marker ends is flushed as one
  segment under the style in effect before the marker, and the scan goes on with bold
  toggled; a marker that is not doubled does the same and toggles italic; nothing is
  flushed when the run is empty. The text \<open>**bold** and *italic*\<close> gives the three
  segments bold (bold), and (plain), italic (italic), in this order.
\<close>

theorem tokenizer_toggle_semantics:
  "(\<forall>pre m rest segs st.
      (\<forall>c \<in> set pre. c \<noteq> star \<and> c \<noteq> underscore) \<and> (m = star \<or> m = underscore) \<longrightarrow>
      inlineLoop (pre @ m # m # rest) segs [] st =
      inlineLoop rest (flush segs pre st) [] (st\<lparr>bold := \<not> bold st\<rparr>)) \<and>
   (\<forall>pre m rest segs st.
      (\<forall>c \<in> set pre. c \<noteq> star \<and> c \<noteq> underscore) \<and> (m = star \<or> m = underscore) \<and>
      (rest = [] \<or> hd rest \<noteq> m) \<longrightarrow>
      inlineLoop (pre @ m # rest) segs [] st =
      inlineLoop rest (flush segs pre st) [] (st\<lparr>italic := \<not> italic st\<rparr>)) \<and>
   (\<forall>segs t st. flush segs t st =
      (if t = [] then segs else segs @ [\<lparr>seg_text = t, seg_style = st\<rparr>])) \<and>
   parseInlineMarkdown (str ''**bold** and *italic*'') =
     [\<lparr>seg_text = str ''bold'', seg_style = plainStyle\<lparr>bold := True\<rparr>\<rparr>,
      \<lparr>seg_text = str '' and '', seg_style = plainStyle\<rparr>,
      \<lparr>seg_text = str ''italic'', seg_style = plainStyle\<lparr>italic := True\<rparr>\<rparr>]"
proof (intro conjI allI impI)
  fix pre m rest segs st
  assume a: "(\<forall>c \<in> set pre. c \<noteq> star \<and> c \<noteq> underscore) \<and> (m = star \<or> m = underscore)"
  then have "inlineLoop (pre @ m # m # rest) segs [] st =
      inlineLoop (m # m # rest) segs ([] @ pre) st"
    using inlineLoop_run [of pre "m # m # rest" segs "[]" st] by simp
  then show "inlineLoop (pre @ m # m # rest) segs [] st =
      inlineLoop rest (flush segs pre st) [] (st\<lparr>bold := \<not> bold st\<rparr>)"
    using a inlineLoop_double [of m rest segs pre st] by simp
next
  fix pre m rest segs st
  assume a: "(\<forall>c \<in> set pre. c \<noteq> star \<and> c \<noteq> underscore) \<and> (m = star \<or> m = underscore) \<and>
      (rest = [] \<or> hd rest \<noteq> m)"
  then have "inlineLoop (pre @ m # rest) segs [] st = inlineLoop (m # rest) segs ([] @ pre) st"
    using inlineLoop_run [of pre "m # rest" segs "[]" st] by simp
  then show "inlineLoop (pre @ m # rest) segs [] st =
      inlineLoop rest (flush segs pre st) [] (st\<lparr>italic := \<not> italic st\<rparr>)"
    using a inlineLoop_single [of m rest segs pre st] by simp
next
  fix segs t st
  show "flush segs t st = (if t = [] then segs else segs @ [\<lparr>seg_text = t, seg_style = st\<rparr>])"
    by (simp add: flush_def)
next
  show "parseInlineMarkdown (str ''**bold** and *italic*'') =
     [\<lparr>seg_text = str ''bold'', seg_style = plainStyle\<lparr>bold := True\<rparr>\<rparr>,
      \<lparr>seg_text = str '' and '', seg_style = plainStyle\<rparr>,
      \<lparr>seg_text = str ''italic'', seg_style = plainStyle\<lparr>italic := True\<rparr>\<rparr>]"
    by (rule tokenize_example)
qed

text \<open>
  The toggles at work on \<open>ab**c\<close> and on \<open>ab_c\<close>, from the plain style: the run
  \<open>ab\<close> is flushed plain, and \<open>c\<close> is scanned under the toggled style.
\<close>

theorem tokenizer_toggle_semantics_witness:
  "inlineLoop (str ''ab'' @ star # star # str ''c'') [] [] plainStyle =
     inlineLoop (str ''c'') [\<lparr>seg_text = str ''ab'', seg_style = plainStyle\<rparr>] []
       (plainStyle\<lparr>bold := True\<rparr>) \<and>
   inlineLoop (str ''ab'' @ underscore # str ''c'') [] [] plainStyle =
     inlineLoop (str ''c'') [\<lparr>seg_text = str ''ab'', seg_style = plainStyle\<rparr>] []
       (plainStyle\<lparr>italic := True\<rparr>)"
proof -
  have markers: "\<forall>c \<in> set (str ''ab''). c \<noteq> star \<and> c \<noteq> underscore"
    by (simp add: str_def star_def underscore_def)
  have fl: "flush [] (str ''ab'') plainStyle = [\<lparr>seg_text = str ''ab'', seg_style = plainStyle\<rparr>]"
    by (simp add: flush_def str_def)
  have pl: "\<not> bold plainStyle" "\<not> italic plainStyle"
    by (simp_all add: plainStyle_def)
  have nxt: "str ''c'' = [] \<or> hd (str ''c'') \<noteq> underscore"
    by (simp add: str_def underscore_def)
  from tokenizer_toggle_semantics
  have dbl: "inlineLoop (str ''ab'' @ star # star # str ''c'') [] [] plainStyle =
      inlineLoop (str ''c'') (flush [] (str ''ab'') plainStyle) []
        (plainStyle\<lparr>bold := \<not> bold plainStyle\<rparr>)"
    using markers by blast
  from tokenizer_toggle_semantics
  have sgl: "inlineLoop (str ''ab'' @ underscore # str ''c'') [] [] plainStyle =
      inlineLoop (str ''c'') (flush [] (str ''ab'') plainStyle) []
        (plainStyle\<lparr>italic := \<not> italic plainStyle\<rparr>)"
    using markers nxt by blast
  from dbl sgl fl pl show ?thesis by simp
qed

section \<open>The forced word splitter\<close>

lemma splitLoop_texts_nonempty:
  "\<forall>f \<in> set result. seg_text f \<noteq> [] \<Longrightarrow>
   \<forall>f \<in> set (splitLoop tw d maxW style cs result cur). seg_text f \<noteq> []"
  by (induction tw d maxW style cs result cur rule: splitLoop.induct)
     (auto simp: Let_def mkSeg_def)

lemma splitLoop_nonempty:
  "cs \<noteq> [] \<or> cur \<noteq> [] \<or> result \<noteq> [] \<Longrightarrow> splitLoop tw d maxW style cs result cur \<noteq> []"
  by (induction tw d maxW style cs result cur rule: splitLoop.induct)
     (auto simp: Let_def mkSeg_def)

text \<open>
  C4. \<open>splitWordIfNeeded\<close> is a total function: its loop is a structural recursion
  over the characters of the word, so it returns for every word, style, metric and
  width. For a word that is not empty it returns at least one fragment, and no fragment
  has an empty text.
\<close>

theorem splitWordIfNeeded_total:
  "word \<noteq> [] \<Longrightarrow>
   fst (splitWordIfNeeded tw word style d maxW) \<noteq> [] \<and>
   (\<forall>f \<in> set (fst (splitWordIfNeeded tw word style d maxW)). seg_text f \<noteq> [])"
  using splitLoop_nonempty [of word "[]" "[]" tw _ maxW style]
        splitLoop_texts_nonempty [of "[]" tw _ maxW style word "[]"]
  by (auto simp: splitWordIfNeeded_def Let_def mkSeg_def)

text \<open>The word \<open>ab\<close> against a width of one half, less than the width of a character.\<close>

theorem splitWordIfNeeded_total_witness:
  "str ''ab'' \<noteq> [] \<and>
   fst (splitWordIfNeeded charMetric (str ''ab'') plainStyle doc0 0.5) \<noteq> [] \<and>
   [] \<notin> set (map seg_text (fst (splitWordIfNeeded charMetric (str ''ab'') plainStyle doc0 0.5)))"
proof -
  have h: "str ''ab'' \<noteq> []" by (simp add: str_def)
  show ?thesis
    using h splitWordIfNeeded_total [OF h, of charMetric plainStyle doc0 "0.5"] by auto
qed

lemma splitLoop_blocks:
  "map seg_text result = map blockText bs \<Longrightarrow>
   map seg_text (splitLoop tw d maxW style cs result cur) =
   map blockText (splitBlocks tw d maxW cs bs cur)"
  by (induction tw d maxW cs bs cur arbitrary: result rule: splitBlocks.induct)
     (auto simp: Let_def mkSeg_def blockText_def)

lemma splitBlocks_concat:
  "concat (map fst (splitBlocks tw d maxW cs bs cur)) = concat (map fst bs) @ cur @ cs"
  by (induction tw d maxW cs bs cur rule: splitBlocks.induct) auto

lemma splitBlocks_nonempty_blocks:
  "\<forall>b \<in> set bs. fst b \<noteq> [] \<Longrightarrow> \<forall>b \<in> set (splitBlocks tw d maxW cs bs cur). fst b \<noteq> []"
  by (induction tw d maxW cs bs cur rule: splitBlocks.induct) auto

lemma hyphens_inner_snoc_plain:
  "hyphens_inner bs cur \<Longrightarrow> cur \<noteq> [] \<or> cur' = [] \<Longrightarrow> hyphens_inner (bs @ [(b, False)]) cur'"
  unfolding hyphens_inner_def
  by (auto simp: nth_append less_Suc_eq)

lemma hyphens_inner_snoc_hyphen:
  "hyphens_inner bs cur \<Longrightarrow> 2 \<le> length b \<Longrightarrow> cur' \<noteq> [] \<Longrightarrow> hyphens_inner (bs @ [(b, True)]) cur'"
  unfolding hyphens_inner_def
  by (auto simp: nth_append less_Suc_eq)

lemma hyphens_inner_grow:
  "hyphens_inner bs cur \<Longrightarrow> cur' \<noteq> [] \<Longrightarrow> hyphens_inner bs cur'"
  unfolding hyphens_inner_def by auto

lemma splitBlocks_hyphens:
  "hyphens_inner bs cur \<Longrightarrow> hyphens_inner (splitBlocks tw d maxW cs bs cur) []"
proof (induction tw d maxW cs bs cur rule: splitBlocks.induct)
  case (1 tw d maxW bs currentPart)
  then show ?case
    using hyphens_inner_snoc_plain [of bs currentPart "[]" currentPart]
    by (cases "currentPart = []") auto
next
  case (2 tw d maxW c cs bs currentPart)
  show ?case
  proof (cases "getTextWidth tw d (currentPart @ [c]) > maxW * 0.95")
    case False
    then show ?thesis
      using 2 hyphens_inner_grow [of bs currentPart "currentPart @ [c]"] by simp
  next
    case wide: True
    show ?thesis
    proof (cases "length currentPart \<ge> 2")
      case True
      then show ?thesis
        using wide 2 hyphens_inner_snoc_hyphen [of bs currentPart currentPart "[c]"] by simp
    next
      case short: False
      show ?thesis
      proof (cases "length currentPart > 0")
        case True
        then show ?thesis
          using wide short 2 hyphens_inner_snoc_plain [of bs currentPart "[c]" currentPart]
          by simp
      next
        case False
        then show ?thesis
          using wide short 2 hyphens_inner_snoc_plain [of bs currentPart "[]" "[c]"]
          by simp
      qed
    qed
  qed
qed

text \<open>
  C10. The fragments of \<open>splitWordIfNeeded\<close> are, in order, the blocks of a cut of the
  word into consecutive pieces: each fragment is its block, unchanged or with one hyphen
  appended; a hyphen is appended only to a block of two characters or more that is not
  the last; the blocks of a word that is not empty are not empty. Their concatenation is
  the word.
\<close>

theorem splitWordIfNeeded_partition:
  "\<exists>bs. concat (map fst bs) = word \<and>
         map seg_text (fst (splitWordIfNeeded tw word style d maxW)) =
           map (\<lambda>(b, h). if h then b @ [hyphen] else b) bs \<and>
         (\<forall>i < length bs. snd (bs ! i) \<longrightarrow> Suc i < length bs \<and> 2 \<le> length (fst (bs ! i))) \<and>
         (word \<noteq> [] \<longrightarrow> (\<forall>b \<in> set bs. fst b \<noteq> []))"
proof -
  define d1 where "d1 = applyStyle d style (getFontSize d) (fontName d)"
  have bt: "blockText = (\<lambda>(b, h). if h then b @ [hyphen] else b)"
    by (auto simp: blockText_def fun_eq_iff)
  show ?thesis
  proof (cases "getTextWidth tw d1 word \<le> maxW")
    case True
    then have "fst (splitWordIfNeeded tw word style d maxW) = [mkSeg word style]"
      by (simp add: splitWordIfNeeded_def d1_def Let_def)
    then show ?thesis
      by (intro exI [of _ "[(word, False)]"]) (simp add: mkSeg_def)
  next
    case False
    let ?bs = "splitBlocks tw d1 maxW word [] []"
    from False have r: "fst (splitWordIfNeeded tw word style d maxW) =
        splitLoop tw d1 maxW style word [] []"
      by (simp add: splitWordIfNeeded_def d1_def Let_def)
    have 1: "concat (map fst ?bs) = word"
      using splitBlocks_concat [of tw d1 maxW word "[]" "[]"] by simp
    have 2: "map seg_text (splitLoop tw d1 maxW style word [] []) = map blockText ?bs"
      using splitLoop_blocks [of "[]" "[]" tw d1 maxW style word "[]"] by simp
    have "hyphens_inner ?bs []"
      using splitBlocks_hyphens [of "[]" "[]" tw d1 maxW word] by (simp add: hyphens_inner_def)
    then have 3: "\<forall>i < length ?bs. snd (?bs ! i) \<longrightarrow>
        Suc i < length ?bs \<and> 2 \<le> length (fst (?bs ! i))"
      by (auto simp: hyphens_inner_def)
    have 4: "\<forall>b \<in> set ?bs. fst b \<noteq> []"
      using splitBlocks_nonempty_blocks [of "[]" tw d1 maxW word "[]"] by simp
    show ?thesis
      using 1 2 3 4 r bt by (intro exI [of _ ?bs]) simp
  qed
qed

text \<open>
  The word \<open>abcde\<close> against a width of three characters: two hyphenated blocks of two
  characters and a last block of one.
\<close>

theorem splitWordIfNeeded_partition_witness:
  "map seg_text (fst (splitWordIfNeeded charMetric (str ''abcde'') plainStyle doc0 3)) =
     [str ''ab-'', str ''cd-'', str ''e''] \<and>
   (\<exists>bs. concat (map fst bs) = str ''abcde'' \<and>
         map seg_text (fst (splitWordIfNeeded charMetric (str ''abcde'') plainStyle doc0 3)) =
           map (\<lambda>(b, h). if h then b @ [hyphen] else b) bs \<and>
         (\<forall>i < length bs. snd (bs ! i) \<longrightarrow> Suc i < length bs \<and> 2 \<le> length (fst (bs ! i))) \<and>
         (\<forall>b \<in> set bs. fst b \<noteq> []))"
proof -
  have ne: "str ''abcde'' \<noteq> []" by (simp add: str_def)
  have fr: "map seg_text (fst (splitWordIfNeeded charMetric (str ''abcde'') plainStyle doc0 3)) =
     [str ''ab-'', str ''cd-'', str ''e'']"
    by (simp add: splitWordIfNeeded_def charMetric_def getTextWidth_def str_def Let_def
        mkSeg_def hyphen_def)
  from splitWordIfNeeded_partition [of "str ''abcde''" charMetric plainStyle doc0 3] ne
  have "\<exists>bs. concat (map fst bs) = str ''abcde'' \<and>
         map seg_text (fst (splitWordIfNeeded charMetric (str ''abcde'') plainStyle doc0 3)) =
           map (\<lambda>(b, h). if h then b @ [hyphen] else b) bs \<and>
         (\<forall>i < length bs. snd (bs ! i) \<longrightarrow> Suc i < length bs \<and> 2 \<le> length (fst (bs ! i))) \<and>
         (\<forall>b \<in> set bs. fst b \<noteq> [])"
    by blast
  with fr show ?thesis by blast
qed

section \<open>Indentation\<close>

lemma indent_list_item: "calculateIndentation (str ''- item'') = 0.25"
  by (simp add: calculateIndentation_def listMarkerMatch_def str_def is_ws_def hyphen_def star_def)

lemma indent_plain_item: "calculateIndentation (str ''item'') = 0.25"
  by (simp add: calculateIndentation_def listMarkerMatch_def str_def is_ws_def hyphen_def
      star_def trim_def is_digit_def)

text \<open>
  C7, as the code has it. The line \<open>- item\<close> and the line \<open>item\<close>, both without leading
  whitespace, get the same base indentation, one quarter: the list branch and the branch
  of flat text add the same amount.
\<close>

theorem list_indentation_equal:
  "calculateIndentation (str ''- item'') = 0.25 \<and> calculateIndentation (str ''item'') = 0.25"
  using indent_list_item indent_plain_item by simp

text \<open>C7, as it is stated, fails: the indentation of the list item is not the greater.\<close>

theorem list_indentation_not_greater:
  "\<not> calculateIndentation (str ''- item'') > calculateIndentation (str ''item'')"
  using indent_list_item indent_plain_item by simp

section \<open>The page driver\<close>

text \<open>
  C9. On the empty text \<open>parsePDFMarkdown\<close> returns the starting \<open>y\<close> and leaves the
  document as it was: nothing is drawn and no font is set.
\<close>

theorem empty_text_identity: "parsePDFMarkdown tw d [] x y options = (y, d)"
  by (simp add: parsePDFMarkdown_def)

section \<open>The justifier\<close>

lemma measureStep_plain:
  "heading (seg_style s) = None \<Longrightarrow>
   measureStep tw (d, acc) s =
     (d\<lparr>curFontStyle := styleFont (seg_style s)\<rparr>,
      acc + naturalWidth tw (fontName d) (curFontSize d) s)"
  by (simp add: measureStep_def applyStyle_same getTextWidth_def naturalWidth_def)

lemma measure_fold:
  "\<forall>s \<in> set segs. heading (seg_style s) = None \<Longrightarrow>
   \<exists>d'. foldl (measureStep tw) (d, acc) segs =
           (d', acc + sum_list (map (naturalWidth tw (fontName d) (curFontSize d)) segs)) \<and>
         fontName d' = fontName d \<and> curFontSize d' = curFontSize d \<and> drawn d' = drawn d"
proof (induction segs arbitrary: d acc)
  case Nil
  then show ?case by simp
next
  case (Cons s segs)
  let ?d1 = "d\<lparr>curFontStyle := styleFont (seg_style s)\<rparr>"
  from Cons.prems have h: "heading (seg_style s) = None"
    and r: "\<forall>s \<in> set segs. heading (seg_style s) = None" by simp_all
  from Cons.IH [OF r, of ?d1 "acc + naturalWidth tw (fontName d) (curFontSize d) s"]
  show ?case
    by (simp add: measureStep_plain [OF h] add.assoc)
qed

lemma justifyLoop_drawn:
  "\<forall>s \<in> set segs. heading (seg_style s) = None \<Longrightarrow> index + length segs = n \<Longrightarrow>
   drawn (fst (justifyLoop tw y extra n segs index d x)) =
   drawn d @ layoutCalls (justifiedAdvance tw (fontName d) (curFontSize d) extra)
              (fontName d) (curFontSize d) y segs x"
proof (induction segs arbitrary: index d x)
  case Nil
  then show ?case by simp
next
  case (Cons s rest)
  from Cons.prems have h: "heading (seg_style s) = None"
    and r: "\<forall>s \<in> set rest. heading (seg_style s) = None"
    and n: "Suc index + length rest = n" by simp_all
  let ?d2 = "drawText (d\<lparr>curFontStyle := styleFont (seg_style s)\<rparr>) (seg_text s) x y"
  have d2: "fontName ?d2 = fontName d" "curFontSize ?d2 = curFontSize d"
    "drawn ?d2 = drawn d @ [callAt (fontName d) (curFontSize d) s x y]"
    by (simp_all add: drawText_def callAt_def)
  have w: "getTextWidth tw ?d2 (seg_text s) = naturalWidth tw (fontName d) (curFontSize d) s"
    by (simp add: getTextWidth_def naturalWidth_def drawText_def)
  show ?case
  proof (cases "rest = []")
    case True
    then show ?thesis
      by (simp add: applyStyle_same [OF h] Let_def d2)
  next
    case False
    then have lt: "int index < int n - 1" using n by (cases rest) auto
    have "justifyLoop tw y extra n (s # rest) index d x =
          justifyLoop tw y extra n rest (Suc index) ?d2
            (x + justifiedAdvance tw (fontName d) (curFontSize d) extra s)"
      using lt by (simp add: applyStyle_same [OF h] Let_def justifiedAdvance_def isGap_def
          getTextWidth_def naturalWidth_def drawText_def add.assoc)
    then show ?thesis
      using Cons.IH [OF r n, of ?d2 "x + justifiedAdvance tw (fontName d) (curFontSize d) extra s"]
      by (simp add: d2)
  qed
qed

lemma renderJustifiedLine_drawn:
  assumes "\<forall>s \<in> set segments. heading (seg_style s) = None" and "2 \<le> length segments"
  shows "drawn (renderJustifiedLine tw d segments x y availableWidth False) =
         drawn d @
         layoutCalls
           (justifiedAdvance tw (fontName d) (curFontSize d)
              (extraPerGap tw (fontName d) (curFontSize d) availableWidth segments))
           (fontName d) (curFontSize d) y segments x"
proof -
  obtain d' where m: "foldl (measureStep tw) (d, 0) segments =
      (d', sum_list (map (naturalWidth tw (fontName d) (curFontSize d)) segments))"
    and f: "fontName d' = fontName d" "curFontSize d' = curFontSize d" "drawn d' = drawn d"
    using measure_fold [OF assms(1), of tw d 0] by auto
  have g: "(\<lambda>s. seg_text s = [space]) = isGap" by (simp add: isGap_def fun_eq_iff)
  have "renderJustifiedLine tw d segments x y availableWidth False =
        fst (justifyLoop tw y
               (extraPerGap tw (fontName d) (curFontSize d) availableWidth segments)
               (length segments) segments 0 d' x)"
    using assms(2) by (simp add: renderJustifiedLine_def m g extraPerGap_def Let_def)
  then show ?thesis
    using justifyLoop_drawn [OF assms(1), of 0 "length segments" tw y _ d' x] f by simp
qed

text \<open>
  C6, as the code has it. On a line of two segments or more that is not the last of its
  block, \<open>renderJustifiedLine\<close> draws every segment under its own font style at its
  natural width, and after a gap marker moves the cursor on by the gap's natural width
  plus \<open>extraPerGap\<close>; \<open>extraPerGap\<close> is the width left over after the widths of all
  the segments of the line, the gap markers included, divided by the number of gap
  markers (zero when there is none). The styles are those the tokenizer produces, which
  carry no heading.
\<close>

theorem justify_gap_distribution:
  assumes "\<forall>s \<in> set segments. heading (seg_style s) = None" and "2 \<le> length segments"
  shows "drawn (renderJustifiedLine tw d segments x y availableWidth False) =
         drawn d @
         layoutCalls
           (justifiedAdvance tw (fontName d) (curFontSize d)
              (extraPerGap tw (fontName d) (curFontSize d) availableWidth segments))
           (fontName d) (curFontSize d) y segments x"
  using assms by (rule renderJustifiedLine_drawn)

lemma lineAB_plain: "\<forall>s \<in> set lineAB. heading (seg_style s) = None"
  by (simp add: lineAB_def mkSeg_def plainStyle_def)

lemma lineAB_x_justified:
  "map d_x (layoutCalls (justifiedAdvance charMetric f n (extraPerGap charMetric f n 10 lineAB))
      f n y lineAB 0) = [0, 1, 9]"
  by (simp add: lineAB_def mkSeg_def callAt_def justifiedAdvance_def extraPerGap_def isGap_def
      naturalWidth_def charMetric_def str_def space_def Let_def)

lemma lineAB_x_claimed:
  "map d_x (layoutCalls
      (justifiedAdvance charMetric f n (extraPerGapClaimed charMetric f n 10 lineAB))
      f n y lineAB 0) = [0, 1, 10]"
  by (simp add: lineAB_def mkSeg_def callAt_def justifiedAdvance_def extraPerGapClaimed_def
      isGap_def naturalWidth_def charMetric_def str_def space_def Let_def)

text \<open>
  The line \<open>a b\<close> of unit-wide characters justified in a width of 10: the three
  segments take 3, the one gap gets the 7 left over, and \<open>b\<close> is drawn at 9.
\<close>

theorem justify_gap_distribution_witness:
  "2 \<le> length lineAB \<and>
   drawn (renderJustifiedLine charMetric doc0 lineAB 0 0 10 False) =
     drawn doc0 @
     layoutCalls
       (justifiedAdvance charMetric (fontName doc0) (curFontSize doc0)
          (extraPerGap charMetric (fontName doc0) (curFontSize doc0) 10 lineAB))
       (fontName doc0) (curFontSize doc0) 0 lineAB 0 \<and>
   map d_x
     (layoutCalls
       (justifiedAdvance charMetric (fontName doc0) (curFontSize doc0)
          (extraPerGap charMetric (fontName doc0) (curFontSize doc0) 10 lineAB))
       (fontName doc0) (curFontSize doc0) 0 lineAB 0) = [0, 1, 9]"
proof -
  have len: "2 \<le> length lineAB" by (simp add: lineAB_def)
  show ?thesis
    using len justify_gap_distribution [OF lineAB_plain len, of charMetric doc0 0 0 10]
      lineAB_x_justified [of "fontName doc0" "curFontSize doc0" 0]
    by simp
qed

text \<open>
  C6, as it is stated, fails on the same line: the code draws \<open>b\<close> at 9, and a gap
  share computed from the widths of the two words alone would put it at 10.
\<close>

theorem justify_total_counts_gaps:
  "map d_x (drawn (renderJustifiedLine charMetric doc0 lineAB 0 0 10 False)) = [0, 1, 9] \<and>
   map d_x
     (layoutCalls
       (justifiedAdvance charMetric (fontName doc0) (curFontSize doc0)
          (extraPerGapClaimed charMetric (fontName doc0) (curFontSize doc0) 10 lineAB))
       (fontName doc0) (curFontSize doc0) 0 lineAB 0) = [0, 1, 10]"
proof
  have len: "2 \<le> length lineAB" by (simp add: lineAB_def)
  have "drawn doc0 = []" by (simp add: doc0_def)
  then show "map d_x (drawn (renderJustifiedLine charMetric doc0 lineAB 0 0 10 False)) = [0, 1, 9]"
    using renderJustifiedLine_drawn [OF lineAB_plain len, of charMetric doc0 0 0 10]
      lineAB_x_justified [of "fontName doc0" "curFontSize doc0" 0]
    by simp
  show "map d_x
     (layoutCalls
       (justifiedAdvance charMetric (fontName doc0) (curFontSize doc0)
          (extraPerGapClaimed charMetric (fontName doc0) (curFontSize doc0) 10 lineAB))
       (fontName doc0) (curFontSize doc0) 0 lineAB 0) = [0, 1, 10]"
    by (rule lineAB_x_claimed)
qed

lemma fallback_fold:
  "\<forall>s \<in> set segs. heading (seg_style s) = None \<Longrightarrow>
   \<exists>d' x'. foldl (fallbackStep tw y) (d, x) segs = (d', x') \<and>
     fontName d' = fontName d \<and> curFontSize d' = curFontSize d \<and> pageHeight d' = pageHeight d \<and>
     drawn d' = drawn d @
       layoutCalls (fallbackAdvance tw (fontName d) (curFontSize d))
         (fontName d) (curFontSize d) y segs x"
proof (induction segs arbitrary: d x)
  case Nil
  then show ?case by simp
next
  case (Cons s rest)
  from Cons.prems have h: "heading (seg_style s) = None"
    and r: "\<forall>s \<in> set rest. heading (seg_style s) = None" by simp_all
  let ?d2 = "drawText (d\<lparr>curFontStyle := styleFont (seg_style s)\<rparr>) (seg_text s) x y"
  have d2: "fontName ?d2 = fontName d" "curFontSize ?d2 = curFontSize d"
    "pageHeight ?d2 = pageHeight d"
    "drawn ?d2 = drawn d @ [callAt (fontName d) (curFontSize d) s x y]"
    by (simp_all add: drawText_def callAt_def)
  have st: "fallbackStep tw y (d, x) s =
      (?d2, x + fallbackAdvance tw (fontName d) (curFontSize d) s)"
    by (simp add: fallbackStep_def applyStyle_same [OF h] Let_def getTextWidth_def
        fallbackAdvance_def drawText_def)
  from Cons.IH [OF r, of ?d2 "x + fallbackAdvance tw (fontName d) (curFontSize d) s"]
  show ?case by (auto simp: st d2)
qed

lemma size_fold:
  "\<forall>s \<in> set segs. heading (seg_style s) = None \<Longrightarrow>
   \<exists>d'. foldl (sizeStep tw options) (d, acc) segs =
           (d', acc + sum_list (map (naturalWidth tw (font options) (fontSize options)) segs)) \<and>
         drawn d' = drawn d \<and> pageHeight d' = pageHeight d"
proof (induction segs arbitrary: d acc)
  case Nil
  then show ?case by simp
next
  case (Cons s rest)
  from Cons.prems have h: "heading (seg_style s) = None"
    and r: "\<forall>s \<in> set rest. heading (seg_style s) = None" by simp_all
  let ?d1 = "applyStyle d (seg_style s) (fontSize options) (font options)"
  have st: "sizeStep tw options (d, acc) s =
      (?d1, acc + naturalWidth tw (font options) (fontSize options) s)"
    by (simp add: sizeStep_def applyStyle_None [OF h] Let_def getTextWidth_def naturalWidth_def)
  have d1: "drawn ?d1 = drawn d" "pageHeight ?d1 = pageHeight d"
    by (simp_all add: applyStyle_None [OF h])
  from Cons.IH [OF r, of ?d1 "acc + naturalWidth tw (font options) (fontSize options) s"]
  show ?case by (auto simp: st d1 add.assoc)
qed

lemma draw_fold:
  "\<forall>s \<in> set segs. heading (seg_style s) = None \<Longrightarrow>
   \<exists>d' x'. foldl (drawStep tw options y) (d, x) segs = (d', x') \<and>
     pageHeight d' = pageHeight d \<and>
     drawn d' = drawn d @
       layoutCalls (naturalWidth tw (font options) (fontSize options))
         (font options) (fontSize options) y segs x"
proof (induction segs arbitrary: d x)
  case Nil
  then show ?case by simp
next
  case (Cons s rest)
  from Cons.prems have h: "heading (seg_style s) = None"
    and r: "\<forall>s \<in> set rest. heading (seg_style s) = None" by simp_all
  let ?d2 = "drawText (applyStyle d (seg_style s) (fontSize options) (font options)) (seg_text s) x y"
  have d2: "pageHeight ?d2 = pageHeight d"
    "drawn ?d2 = drawn d @ [callAt (font options) (fontSize options) s x y]"
    by (simp_all add: drawText_def callAt_def applyStyle_None [OF h])
  have st: "drawStep tw options y (d, x) s =
      (?d2, x + naturalWidth tw (font options) (fontSize options) s)"
    by (simp add: drawStep_def applyStyle_None [OF h] Let_def getTextWidth_def
        naturalWidth_def drawText_def)
  from Cons.IH [OF r, of ?d2 "x + naturalWidth tw (font options) (fontSize options) s"]
  show ?case by (auto simp: st d2)
qed

lemma renderAligned_drawn:
  assumes "\<forall>s \<in> set segs. heading (seg_style s) = None"
  shows "drawn (renderAligned tw options d segs x xStart centred y) =
         drawn d @
         layoutCalls (naturalWidth tw (font options) (fontSize options))
           (font options) (fontSize options) y segs
           (alignedStart options x xStart centred
              (sum_list (map (naturalWidth tw (font options) (fontSize options)) segs)))"
proof -
  obtain d1 where m: "foldl (sizeStep tw options) (d, 0) segs =
      (d1, sum_list (map (naturalWidth tw (font options) (fontSize options)) segs))"
    and d1: "drawn d1 = drawn d"
    using size_fold [OF assms, of tw options d 0] by auto
  let ?x0 = "alignedStart options x xStart centred
      (sum_list (map (naturalWidth tw (font options) (fontSize options)) segs))"
  obtain d2 x2 where f: "foldl (drawStep tw options y) (d1, ?x0) segs = (d2, x2)"
    and d2: "drawn d2 = drawn d1 @
       layoutCalls (naturalWidth tw (font options) (fontSize options))
         (font options) (fontSize options) y segs ?x0"
    using draw_fold [OF assms, of tw options y d1 ?x0] by auto
  have "renderAligned tw options d segs x xStart centred y = d2"
    using f by (simp add: renderAligned_def m alignedStart_def Let_def)
  then show ?thesis using d2 d1 by simp
qed

lemma fallback_drawn:
  assumes "\<forall>s \<in> set segs. heading (seg_style s) = None"
    and "isLastLine \<or> length segs \<le> 1"
  shows "drawn (renderJustifiedLine tw d segs x y w isLastLine) =
         drawn d @
         layoutCalls (fallbackAdvance tw (fontName d) (curFontSize d))
           (fontName d) (curFontSize d) y segs x"
proof -
  obtain d' x' where f: "foldl (fallbackStep tw y) (d, x) segs = (d', x')"
    and d': "drawn d' = drawn d @
       layoutCalls (fallbackAdvance tw (fontName d) (curFontSize d))
         (fontName d) (curFontSize d) y segs x"
    using fallback_fold [OF assms(1), of tw y d x] by auto
  have "renderJustifiedLine tw d segs x y w isLastLine = d'"
    using assms(2) f by (auto simp: renderJustifiedLine_def)
  then show ?thesis using d' by simp
qed

lemma lineAB_x_fallback:
  "map d_x (layoutCalls (fallbackAdvance charMetric f n) f n y lineAB 0) = [0, 2, 3]"
  by (simp add: lineAB_def mkSeg_def callAt_def fallbackAdvance_def charMetric_def str_def
      space_def)

lemma lineAB_x_left:
  "map d_x (layoutCalls (naturalWidth charMetric f n) f n y lineAB 0) = [0, 1, 2]"
  by (simp add: lineAB_def mkSeg_def callAt_def naturalWidth_def charMetric_def str_def)

text \<open>
  C2 at the line \<open>a b\<close>, the last line of a paragraph, from the same document and with
  the same options but for the alignment. Justified, the fallback advances by the width
  of \<open>a\<close> with a space appended, and the segments are drawn at 0, 2 and 3; left-aligned
  they are drawn at 0, 1 and 2.
\<close>

theorem justify_fallback_diverges:
  "map d_x (drawn (placeTextLine charMetric (opts0\<lparr>align := Some AlignJustify\<rparr>) 0 0 doc0
      lineAB 0 True)) = [0, 2, 3] \<and>
   map d_x (drawn (placeTextLine charMetric (opts0\<lparr>align := Some AlignLeft\<rparr>) 0 0 doc0
      lineAB 0 True)) = [0, 1, 2]"
proof
  have "drawn (placeTextLine charMetric (opts0\<lparr>align := Some AlignJustify\<rparr>) 0 0 doc0 lineAB 0 True) =
      drawn doc0 @ layoutCalls (fallbackAdvance charMetric (fontName doc0) (curFontSize doc0))
           (fontName doc0) (curFontSize doc0) 0 lineAB 0"
    using fallback_drawn [OF lineAB_plain, of True charMetric doc0 0 0]
    by (simp add: placeTextLine_def)
  then show "map d_x (drawn (placeTextLine charMetric (opts0\<lparr>align := Some AlignJustify\<rparr>) 0 0
      doc0 lineAB 0 True)) = [0, 2, 3]"
    using lineAB_x_fallback by (simp add: doc0_def)
next
  have "drawn (placeTextLine charMetric (opts0\<lparr>align := Some AlignLeft\<rparr>) 0 0 doc0 lineAB 0 True) =
      drawn doc0 @ layoutCalls (naturalWidth charMetric (font opts0) (fontSize opts0))
           (font opts0) (fontSize opts0) 0 lineAB 0"
    using renderAligned_drawn [OF lineAB_plain, of charMetric "opts0\<lparr>align := Some AlignLeft\<rparr>" doc0]
    by (simp add: placeTextLine_def alignedStart_def)
  then show "map d_x (drawn (placeTextLine charMetric (opts0\<lparr>align := Some AlignLeft\<rparr>) 0 0
      doc0 lineAB 0 True)) = [0, 1, 2]"
    using lineAB_x_left by (simp add: doc0_def)
qed

section \<open>The line breaker\<close>

lemma arr_set_mem: "l \<in> set (arr_set xs i v) \<Longrightarrow> l \<in> set xs \<or> l = v \<or> l = []"
  by (auto simp: arr_set_def dest: set_update_subset_insert [THEN subsetD] split: if_splits)

lemma fitsLine_Nil: "fitsLine tw f n sw a []"
  by (simp add: fitsLine_def)

lemma lineWidthOf_Nil: "lineWidthOf tw f n sw [] = 0"
  by (simp add: lineWidthOf_def)

lemma lineWidthOf_snoc:
  "lineWidthOf tw f n sw (l @ [p]) = lineWidthOf tw f n sw l + segWidth tw f n sw p"
  by (simp add: lineWidthOf_def)

lemma commitLine_fields:
  "lb_doc (commitLine s) = lb_doc s" "currentLineSegments (commitLine s) = []"
  by (simp_all add: commitLine_def)

lemma commitLine_inv:
  assumes "lbInv tw f n sw a s"
  shows "lbInv tw f n sw a (commitLine s)"
proof (cases "currentLineSegments s = []")
  case True
  then show ?thesis using assms by (simp add: commitLine_def)
next
  case False
  let ?ls = "arr_set (arr_set (lines s) (currentLine s) (currentLineSegments s)) (currentLine s + 1) []"
  have mem: "\<And>l. l \<in> set ?ls \<Longrightarrow> l \<in> set (lines s) \<or> l = currentLineSegments s \<or> l = []"
    using arr_set_mem by blast
  have c: "commitLine s = s\<lparr>lines := ?ls, currentLine := currentLine s + 1,
      currentLineSegments := [], currentLineWidth := 0\<rparr>"
    using False by (simp add: commitLine_def)
  have 1: "\<forall>l \<in> set ?ls. fitsLine tw f n sw a l"
    using assms mem fitsLine_Nil unfolding lbInv_def by blast
  have 2: "\<forall>l \<in> set ?ls. \<forall>p \<in> set l. okSeg p"
  proof
    fix l assume "l \<in> set ?ls"
    from mem [OF this] show "\<forall>p \<in> set l. okSeg p"
      using assms unfolding lbInv_def by auto
  qed
  show ?thesis
    unfolding c using assms 1 2
    by (simp add: lbInv_def fitsLine_Nil lineWidthOf_Nil)
qed

lemma splitLoop_parts:
  "\<forall>p \<in> set result. seg_style p = style \<and> set (seg_text p) \<subseteq> S \<Longrightarrow>
   set cs \<subseteq> S \<Longrightarrow> set cur \<subseteq> S \<Longrightarrow> hyphen \<in> S \<Longrightarrow>
   \<forall>p \<in> set (splitLoop tw d maxW style cs result cur).
      seg_style p = style \<and> set (seg_text p) \<subseteq> S"
  by (induction tw d maxW style cs result cur rule: splitLoop.induct)
     (auto simp: Let_def mkSeg_def)

lemma splitWordIfNeeded_parts:
  "\<forall>p \<in> set (fst (splitWordIfNeeded tw word style d maxW)).
     seg_style p = style \<and> set (seg_text p) \<subseteq> insert hyphen (set word)"
  using splitLoop_parts [of "[]" style "insert hyphen (set word)" word "[]" tw _ maxW]
  by (auto simp: splitWordIfNeeded_def Let_def mkSeg_def)

lemma splitWordIfNeeded_doc:
  "snd (splitWordIfNeeded tw word style d maxW) = applyStyle d style (getFontSize d) (fontName d)"
  by (simp add: splitWordIfNeeded_def Let_def)

lemma placeParts_inv:
  "lbInv tw f n sw a s \<Longrightarrow> index = 0 \<longrightarrow> currentLineSegments s = [] \<Longrightarrow>
   fontName (lb_doc s) = f \<Longrightarrow> curFontStyle (lb_doc s) = styleFont st \<Longrightarrow> heading st = None \<Longrightarrow>
   \<forall>p \<in> set parts. seg_style p = st \<and> space \<notin> set (seg_text p) \<Longrightarrow>
   lbInv tw f n sw a (placeParts tw s parts index)"
proof (induction parts arbitrary: s index)
  case Nil
  then show ?case by simp
next
  case (Cons part rest)
  let ?s1 = "if index > 0 then commitLine s else s"
  let ?s2 = "?s1\<lparr>currentLineSegments := currentLineSegments ?s1 @ [part],
      currentLineWidth := getTextWidth tw (lb_doc ?s1) (seg_text part)\<rparr>"
  have i1: "lbInv tw f n sw a ?s1" using Cons.prems(1) commitLine_inv by auto
  have e1: "currentLineSegments ?s1 = []" using Cons.prems(2) by (auto simp: commitLine_fields)
  have d1: "lb_doc ?s1 = lb_doc s" by (simp add: commitLine_fields)
  have p: "seg_style part = st" "space \<notin> set (seg_text part)" using Cons.prems(6) by auto
  then have ns: "seg_text part \<noteq> [space]" by auto
  have n: "curFontSize (lb_doc s) = n" using Cons.prems(1) by (simp add: lbInv_def)
  have w: "getTextWidth tw (lb_doc ?s1) (seg_text part) = segWidth tw f n sw part"
    using Cons.prems(3,4) p ns n by (simp add: d1 getTextWidth_def segWidth_def)
  have ok: "okSeg part" using p Cons.prems(5) by (simp add: okSeg_def)
  have i2: "lbInv tw f n sw a ?s2"
    using i1 e1 w ok p(2) unfolding lbInv_def
    by (simp add: lineWidthOf_def fitsLine_def)
  have "lbInv tw f n sw a (placeParts tw ?s2 rest (index + 1))"
  proof (rule Cons.IH)
    show "lbInv tw f n sw a ?s2" by (rule i2)
    show "index + 1 = 0 \<longrightarrow> currentLineSegments ?s2 = []" by simp
    show "fontName (lb_doc ?s2) = f" using Cons.prems(3) d1 by simp
    show "curFontStyle (lb_doc ?s2) = styleFont st" using Cons.prems(4) d1 by simp
    show "heading st = None" by (rule Cons.prems(5))
    show "\<forall>p \<in> set rest. seg_style p = st \<and> space \<notin> set (seg_text p)"
      using Cons.prems(6) by simp
  qed
  then show ?case by (simp add: Let_def)
qed

lemma is_ws_space: "is_ws space"
  by (simp add: is_ws_def space_def)

lemma hyphen_not_space: "hyphen \<noteq> space"
  by (simp add: hyphen_def space_def)

lemma split_ws_from_no_ws:
  "\<forall>c \<in> set cur. \<not> is_ws c \<Longrightarrow>
   \<forall>w \<in> set (split_ws_from inrun cur cs). \<forall>c \<in> set w. \<not> is_ws c"
proof (induction cs arbitrary: inrun cur)
  case Nil
  then show ?case by simp
next
  case (Cons c cs)
  have e: "\<forall>w \<in> set (split_ws_from True [] cs). \<forall>c \<in> set w. \<not> is_ws c"
    by (rule Cons.IH) simp
  show ?case
  proof (cases "is_ws c")
    case True
    then show ?thesis using e Cons.prems by (cases inrun) simp_all
  next
    case False
    have "\<forall>w \<in> set (split_ws_from False (cur @ [c]) cs). \<forall>c \<in> set w. \<not> is_ws c"
      by (rule Cons.IH) (use False Cons.prems in auto)
    then show ?thesis using False by simp
  qed
qed

lemma split_ws_no_ws: "\<forall>w \<in> set (split_ws t). \<forall>c \<in> set w. \<not> is_ws c"
  using split_ws_from_no_ws [of "[]" False t] by (simp add: split_ws_def)

lemma wordStep_inv:
  assumes inv: "lbInv tw f n sw a s" and h: "heading st = None"
    and nw: "\<forall>c \<in> set word. \<not> is_ws c"
  shows "lbInv tw f n sw a (wordStep tw f a sw st s word)"
proof (cases "word = []")
  case True
  then show ?thesis using inv by (simp add: wordStep_def)
next
  case False
  have sp: "space \<notin> set word" using nw is_ws_space by auto
  then have ns: "word \<noteq> [space]" by auto
  have n: "curFontSize (lb_doc s) = n" using inv by (simp add: lbInv_def)
  define d1 where "d1 = applyStyle (lb_doc s) st (getFontSize (lb_doc s)) f"
  have d1: "fontName d1 = f" "curFontStyle d1 = styleFont st" "curFontSize d1 = n"
    using n by (simp_all add: d1_def applyStyle_None [OF h] getFontSize_def)
  define s1 where "s1 = s\<lparr>lb_doc := d1\<rparr>"
  have i1: "lbInv tw f n sw a s1"
    using inv d1 by (simp add: lbInv_def s1_def)
  define ww where "ww = getTextWidth tw d1 word"
  have ww: "ww = segWidth tw f n sw (mkSeg word st)"
    using d1 ns by (simp add: ww_def getTextWidth_def segWidth_def mkSeg_def)
  have gapw: "segWidth tw f n sw (mkSeg [space] st) = sw"
    by (simp add: segWidth_def mkSeg_def)
  have okw: "okSeg (mkSeg word st)" using sp h by (simp add: okSeg_def mkSeg_def)
  have okg: "okSeg (mkSeg [space] st)" using h by (simp add: okSeg_def mkSeg_def)
  have cw: "currentLineWidth s1 = lineWidthOf tw f n sw (currentLineSegments s1)"
    using i1 by (simp add: lbInv_def)
  define total where "total = currentLineWidth s1 +
      (if length (currentLineSegments s1) > 0 then sw else 0) + ww"
  have unfold: "wordStep tw f a sw st s word =
     (if total \<le> a then
        let s2 = (if length (currentLineSegments s1) > 0 then
                    s1\<lparr>currentLineSegments := currentLineSegments s1 @ [mkSeg [space] st],
                       currentLineWidth := currentLineWidth s1 + sw\<rparr>
                  else s1)
        in s2\<lparr>currentLineSegments := currentLineSegments s2 @ [mkSeg word st],
              currentLineWidth := currentLineWidth s2 + ww\<rparr>
      else if ww \<le> a then
        let s2 = commitLine s1
        in s2\<lparr>currentLineSegments := currentLineSegments s2 @ [mkSeg word st],
              currentLineWidth := ww\<rparr>
      else
        let s2 = (if length (currentLineSegments s1) > 0 then commitLine s1 else s1);
            (parts, d2) = splitWordIfNeeded tw word st (lb_doc s2) a
        in placeParts tw (s2\<lparr>lb_doc := d2\<rparr>) parts 0)"
    using False by (simp add: wordStep_def Let_def d1_def s1_def ww_def total_def)
  show ?thesis
  proof (cases "total \<le> a")
    case fits: True
    show ?thesis
    proof (cases "currentLineSegments s1 = []")
      case True
      have r: "wordStep tw f a sw st s word =
          s1\<lparr>currentLineSegments := [mkSeg word st], currentLineWidth := currentLineWidth s1 + ww\<rparr>"
        using fits True by (simp add: unfold)
      have "currentLineWidth s1 = 0" using cw True by (simp add: lineWidthOf_def)
      then have "lineWidthOf tw f n sw [mkSeg word st] \<le> a"
        using fits True ww by (simp add: total_def lineWidthOf_def)
      then show ?thesis
        unfolding r using i1 okw ww \<open>currentLineWidth s1 = 0\<close>
        by (simp add: lbInv_def fitsLine_def lineWidthOf_def)
    next
      case nonempty: False
      let ?cls = "currentLineSegments s1 @ [mkSeg [space] st] @ [mkSeg word st]"
      have r: "wordStep tw f a sw st s word =
          s1\<lparr>currentLineSegments := ?cls, currentLineWidth := currentLineWidth s1 + sw + ww\<rparr>"
        using fits nonempty by (simp add: unfold)
      have w: "lineWidthOf tw f n sw ?cls = currentLineWidth s1 + sw + ww"
        using cw ww gapw by (simp add: lineWidthOf_def)
      then have "lineWidthOf tw f n sw ?cls \<le> a"
        using fits nonempty by (simp add: total_def)
      then show ?thesis
        unfolding r using i1 okw okg w
        by (simp add: lbInv_def fitsLine_def)
    qed
  next
    case nofit: False
    show ?thesis
    proof (cases "ww \<le> a")
      case True
      let ?s2 = "commitLine s1"
      have r: "wordStep tw f a sw st s word =
          ?s2\<lparr>currentLineSegments := [mkSeg word st], currentLineWidth := ww\<rparr>"
        using nofit True by (simp add: unfold commitLine_fields Let_def)
      have i2: "lbInv tw f n sw a ?s2" using i1 by (rule commitLine_inv)
      have "lineWidthOf tw f n sw [mkSeg word st] \<le> a"
        using True ww by (simp add: lineWidthOf_def)
      then show ?thesis
        unfolding r using i2 okw ww
        by (simp add: lbInv_def fitsLine_def lineWidthOf_def)
    next
      case False
      define s2 where "s2 = (if length (currentLineSegments s1) > 0 then commitLine s1 else s1)"
      define parts where "parts = fst (splitWordIfNeeded tw word st (lb_doc s2) a)"
      define d2 where "d2 = snd (splitWordIfNeeded tw word st (lb_doc s2) a)"
      have r: "wordStep tw f a sw st s word = placeParts tw (s2\<lparr>lb_doc := d2\<rparr>) parts 0"
        using nofit False
        by (simp add: unfold s2_def parts_def d2_def Let_def split_beta)
      have i2: "lbInv tw f n sw a s2" using i1 commitLine_inv by (auto simp: s2_def)
      have e2: "currentLineSegments s2 = []" by (auto simp: s2_def commitLine_fields)
      have ds2: "lb_doc s2 = d1" by (simp add: s2_def commitLine_fields s1_def)
      have dd: "d2 = d1"
        using d1 by (simp add: d2_def splitWordIfNeeded_doc ds2 applyStyle_None [OF h]
            getFontSize_def)
      have i3: "lbInv tw f n sw a (s2\<lparr>lb_doc := d2\<rparr>)"
        using i2 d1 by (simp add: lbInv_def dd)
      have ps: "\<forall>p \<in> set parts. seg_style p = st \<and> space \<notin> set (seg_text p)"
      proof
        fix p assume "p \<in> set parts"
        then have "seg_style p = st" and sub: "set (seg_text p) \<subseteq> insert hyphen (set word)"
          using splitWordIfNeeded_parts [of tw word st "lb_doc s2" a] by (simp_all add: parts_def)
        moreover have "space \<notin> insert hyphen (set word)"
          using sp hyphen_not_space by simp
        ultimately show "seg_style p = st \<and> space \<notin> set (seg_text p)" by blast
      qed
      show ?thesis
        unfolding r
      proof (rule placeParts_inv [where st = st])
        show "lbInv tw f n sw a (s2\<lparr>lb_doc := d2\<rparr>)" by (rule i3)
        show "(0::nat) = 0 \<longrightarrow> currentLineSegments (s2\<lparr>lb_doc := d2\<rparr>) = []" using e2 by simp
        show "fontName (lb_doc (s2\<lparr>lb_doc := d2\<rparr>)) = f" using d1 dd by simp
        show "curFontStyle (lb_doc (s2\<lparr>lb_doc := d2\<rparr>)) = styleFont st" using d1 dd by simp
        show "heading st = None" by (rule h)
        show "\<forall>p \<in> set parts. seg_style p = st \<and> space \<notin> set (seg_text p)" by (rule ps)
      qed
    qed
  qed
qed

lemma wordStep_fold_inv:
  "lbInv tw f n sw a s \<Longrightarrow> heading st = None \<Longrightarrow> \<forall>w \<in> set ws. \<forall>c \<in> set w. \<not> is_ws c \<Longrightarrow>
   lbInv tw f n sw a (foldl (wordStep tw f a sw st) s ws)"
  by (induction ws arbitrary: s) (simp_all add: wordStep_inv)

lemma segmentStep_inv:
  "lbInv tw f n sw a s \<Longrightarrow> heading (seg_style segment) = None \<Longrightarrow>
   lbInv tw f n sw a (segmentStep tw f a sw s segment)"
  unfolding segmentStep_def
  using split_ws_no_ws by (intro wordStep_fold_inv) auto

lemma segments_fold_inv:
  "lbInv tw f n sw a s \<Longrightarrow> \<forall>g \<in> set segments. heading (seg_style g) = None \<Longrightarrow>
   lbInv tw f n sw a (foldl (segmentStep tw f a sw) s segments)"
  by (induction segments arbitrary: s) (simp_all add: segmentStep_inv)

lemma remeasure_fold:
  "\<forall>p \<in> set line. okSeg p \<Longrightarrow> curFontSize d = n \<Longrightarrow>
   \<exists>d'. foldl (remeasureStep tw f) (d, acc) line =
           (d', acc + sum_list (map (naturalWidth tw f n) line)) \<and>
         curFontSize d' = n \<and> (line \<noteq> [] \<or> fontName d = f \<longrightarrow> fontName d' = f)"
proof (induction line arbitrary: d acc)
  case Nil
  then show ?case by simp
next
  case (Cons p line)
  have h: "heading (seg_style p) = None" using Cons.prems(1) by (simp add: okSeg_def)
  let ?d1 = "applyStyle d (seg_style p) (getFontSize d) f"
  have d1: "curFontSize ?d1 = n" "fontName ?d1 = f" "curFontStyle ?d1 = styleFont (seg_style p)"
    using Cons.prems(2) by (simp_all add: applyStyle_None [OF h] getFontSize_def)
  have st: "remeasureStep tw f (d, acc) p = (?d1, acc + naturalWidth tw f n p)"
    using d1 by (simp add: remeasureStep_def Let_def getTextWidth_def naturalWidth_def)
  from Cons.prems(1) have r: "\<forall>p \<in> set line. okSeg p" by simp
  from Cons.IH [OF r d1(1), of "acc + naturalWidth tw f n p"] d1(2)
  show ?case by (auto simp: st add.assoc)
qed

lemma admit_fold:
  "cw = lineWidthOf tw f n sw nl \<Longrightarrow> nl = [] \<or> cw \<le> a \<Longrightarrow>
   \<forall>p \<in> set parts. getTextWidth tw d (seg_text p) = segWidth tw f n sw p \<Longrightarrow>
   (case foldl (admitPart tw d a) (nl, cw) parts of
      (nl', cw') \<Rightarrow> cw' = lineWidthOf tw f n sw nl' \<and> (nl' = [] \<or> cw' \<le> a))"
proof (induction parts arbitrary: nl cw)
  case Nil
  then show ?case by simp
next
  case (Cons p parts)
  have w: "getTextWidth tw d (seg_text p) = segWidth tw f n sw p" using Cons.prems(3) by simp
  from Cons.prems(3) have r: "\<forall>p \<in> set parts. getTextWidth tw d (seg_text p) = segWidth tw f n sw p"
    by simp
  show ?case
  proof (cases "cw + getTextWidth tw d (seg_text p) \<le> a")
    case True
    have s: "admitPart tw d a (nl, cw) p = (nl @ [p], cw + segWidth tw f n sw p)"
      using True w by (simp add: admitPart_def)
    have "case foldl (admitPart tw d a) (nl @ [p], cw + segWidth tw f n sw p) parts of
      (nl', cw') \<Rightarrow> cw' = lineWidthOf tw f n sw nl' \<and> (nl' = [] \<or> cw' \<le> a)"
    proof (rule Cons.IH [OF _ _ r])
      show "cw + segWidth tw f n sw p = lineWidthOf tw f n sw (nl @ [p])"
        using Cons.prems(1) by (simp add: lineWidthOf_snoc)
      show "nl @ [p] = [] \<or> cw + segWidth tw f n sw p \<le> a" using True w by simp
    qed
    then show ?thesis by (simp add: s)
  next
    case False
    have s: "admitPart tw d a (nl, cw) p = (nl, cw)"
      using False by (simp add: admitPart_def)
    show ?thesis
      unfolding foldl_Cons s by (rule Cons.IH [OF Cons.prems(1,2) r])
  qed
qed

lemma rebuildStep_inv:
  assumes inv: "rbInv tw f n sw a acc" and ok: "okSeg seg"
  shows "rbInv tw f n sw a (rebuildStep tw a sw acc seg)"
proof -
  obtain d nl cw where acc: "acc = (d, nl, cw)" by (cases acc) auto
  have i: "curFontSize d = n" "fontName d = f" "cw = lineWidthOf tw f n sw nl" "nl = [] \<or> cw \<le> a"
    using inv by (auto simp: rbInv_def acc)
  show ?thesis
  proof (cases "seg_text seg = [space]")
    case True
    have gw: "segWidth tw f n sw seg = sw" using True by (simp add: segWidth_def)
    show ?thesis
      using True i gw by (auto simp: rebuildStep_def acc rbInv_def lineWidthOf_snoc)
  next
    case False
    then have sp: "space \<notin> set (seg_text seg)" using ok by (simp add: okSeg_def)
    have h: "heading (seg_style seg) = None" using ok by (simp add: okSeg_def)
    define parts where "parts = fst (splitWordIfNeeded tw (seg_text seg) (seg_style seg) d (a - cw))"
    define d1 where "d1 = snd (splitWordIfNeeded tw (seg_text seg) (seg_style seg) d (a - cw))"
    have d1: "fontName d1 = f" "curFontStyle d1 = styleFont (seg_style seg)" "curFontSize d1 = n"
      using i by (simp_all add: d1_def splitWordIfNeeded_doc applyStyle_None [OF h] getFontSize_def)
    have ws: "\<forall>p \<in> set parts. getTextWidth tw d1 (seg_text p) = segWidth tw f n sw p"
    proof
      fix p assume "p \<in> set parts"
      then have st: "seg_style p = seg_style seg"
        and sub: "set (seg_text p) \<subseteq> insert hyphen (set (seg_text seg))"
        using splitWordIfNeeded_parts [of tw "seg_text seg" "seg_style seg" d "a - cw"]
        by (simp_all add: parts_def)
      have "space \<notin> insert hyphen (set (seg_text seg))" using sp hyphen_not_space by simp
      then have "space \<notin> set (seg_text p)" using sub by blast
      then have "seg_text p \<noteq> [space]" by auto
      then show "getTextWidth tw d1 (seg_text p) = segWidth tw f n sw p"
        using d1 st by (simp add: getTextWidth_def segWidth_def)
    qed
    obtain nl' cw' where fo: "foldl (admitPart tw d1 a) (nl, cw) parts = (nl', cw')"
      by (cases "foldl (admitPart tw d1 a) (nl, cw) parts") auto
    have res: "cw' = lineWidthOf tw f n sw nl' \<and> (nl' = [] \<or> cw' \<le> a)"
      using admit_fold [OF i(3) i(4) ws] by (auto simp: fo)
    have "rebuildStep tw a sw acc seg = (d1, nl', cw')"
      using False fo by (simp add: rebuildStep_def acc parts_def d1_def split_beta Let_def)
    then show ?thesis using res d1 by (auto simp: rbInv_def)
  qed
qed

lemma rebuild_fold_inv:
  "rbInv tw f n sw a acc \<Longrightarrow> \<forall>p \<in> set line. okSeg p \<Longrightarrow>
   rbInv tw f n sw a (foldl (rebuildStep tw a sw) acc line)"
  by (induction line arbitrary: acc) (simp_all add: rebuildStep_inv)

lemma verifyLine_ok:
  assumes n: "curFontSize d = n" and ne: "line \<noteq> []" and fits: "fitsLine tw f n sw a line"
    and ok: "\<forall>p \<in> set line. okSeg p"
  shows "(fst (verifyLine tw f a sw d line) = [] \<or>
          lineWidthOf tw f n sw (fst (verifyLine tw f a sw d line)) \<le> a) \<and>
         curFontSize (snd (verifyLine tw f a sw d line)) = n"
proof -
  obtain d1 where m: "foldl (remeasureStep tw f) (d, 0) line =
      (d1, sum_list (map (naturalWidth tw f n) line))"
    and d1: "curFontSize d1 = n" "fontName d1 = f"
    using remeasure_fold [OF ok n, of tw f 0] ne by auto
  let ?lw = "sum_list (map (naturalWidth tw f n) line)"
  show ?thesis
  proof (cases "?lw > a")
    case True
    let ?r = "foldl (rebuildStep tw a sw) (d1, [], 0) line"
    have "rbInv tw f n sw a (d1, [], 0)" using d1 by (simp add: rbInv_def lineWidthOf_Nil)
    then have ri: "rbInv tw f n sw a ?r" using ok by (rule rebuild_fold_inv)
    obtain d2 nl cw where r: "?r = (d2, nl, cw)" by (cases ?r) auto
    have v: "verifyLine tw f a sw d line = (nl, d2)"
      using True by (simp add: verifyLine_def m r)
    show ?thesis using ri by (auto simp: v r rbInv_def)
  next
    case False
    have v: "verifyLine tw f a sw d line = (line, d1)"
      using False by (simp add: verifyLine_def m)
    have "lineWidthOf tw f n sw line \<le> a"
    proof (cases "lineWidthOf tw f n sw line \<le> a")
      case True then show ?thesis .
    next
      case nf: False
      then obtain p where p: "line = [p]" "space \<notin> set (seg_text p)"
        using fits ne by (auto simp: fitsLine_def)
      then have "seg_text p \<noteq> [space]" by auto
      then have "lineWidthOf tw f n sw line = ?lw"
        using p by (simp add: lineWidthOf_def segWidth_def naturalWidth_def)
      then show ?thesis using False by simp
    qed
    then show ?thesis using d1 by (simp add: v)
  qed
qed

lemma verifyLines_ok:
  "curFontSize d = n \<Longrightarrow>
   \<forall>l \<in> set ls. l \<noteq> [] \<and> fitsLine tw f n sw a l \<and> (\<forall>p \<in> set l. okSeg p) \<Longrightarrow>
   \<forall>l \<in> set (fst (verifyLines tw f a sw d ls)). l = [] \<or> lineWidthOf tw f n sw l \<le> a"
proof (induction ls arbitrary: d)
  case Nil
  then show ?case by simp
next
  case (Cons l ls)
  from Cons.prems(2) have l: "l \<noteq> []" "fitsLine tw f n sw a l" "\<forall>p \<in> set l. okSeg p"
    and r: "\<forall>l \<in> set ls. l \<noteq> [] \<and> fitsLine tw f n sw a l \<and> (\<forall>p \<in> set l. okSeg p)"
    by simp_all
  note v = verifyLine_ok [OF Cons.prems(1) l]
  from v have n1: "curFontSize (snd (verifyLine tw f a sw d l)) = n" by simp
  have "fst (verifyLines tw f a sw d (l # ls)) =
        fst (verifyLine tw f a sw d l) #
        fst (verifyLines tw f a sw (snd (verifyLine tw f a sw d l)) ls)"
    by (simp add: split_beta Let_def)
  then show ?case using v Cons.IH [OF n1 r] by simp
qed

text \<open>
  C1, as the code has it. For segments whose styles carry no heading, every line that
  \<open>splitTextToLines\<close> returns is empty or has a measured width of at most the available
  width \<open>maxWidth - baseIndentation * fontSize\<close>. No line is exempt: the post-pass
  drops a fragment that is too wide, and leaves an empty line where nothing fitted.
\<close>

theorem splitTextToLines_width_bound:
  assumes "\<forall>g \<in> set segments. heading (seg_style g) = None"
  shows "\<forall>line \<in> set (fst (splitTextToLines tw d segments maxW baseIndentation fnt)).
           line = [] \<or>
           lineWidthOf tw fnt (curFontSize d) (getTextWidth tw d [space]) line
             \<le> maxW - baseIndentation * getFontSize d"
proof -
  define a where "a = maxW - baseIndentation * getFontSize d"
  define sw where "sw = getTextWidth tw d [space]"
  define n where "n = curFontSize d"
  define s0 where "s0 = \<lparr>lb_doc = d, lines = [[]], currentLine = 0, currentLineWidth = 0,
      currentLineSegments = []\<rparr>"
  define s1 where "s1 = foldl (segmentStep tw fnt a sw) s0 segments"
  define s2 where "s2 = (if length (currentLineSegments s1) > 0 then commitLine s1 else s1)"
  have "lbInv tw fnt n sw a s0"
    by (simp add: lbInv_def s0_def n_def fitsLine_Nil lineWidthOf_Nil)
  then have "lbInv tw fnt n sw a s1"
    unfolding s1_def using assms by (rule segments_fold_inv)
  then have i2: "lbInv tw fnt n sw a s2"
    using commitLine_inv by (auto simp: s2_def)
  have r: "splitTextToLines tw d segments maxW baseIndentation fnt =
      verifyLines tw fnt a sw (lb_doc s2) (filter (\<lambda>line. length line > 0) (lines s2))"
    by (simp add: splitTextToLines_def Let_def a_def sw_def s0_def s1_def s2_def)
  have "\<forall>l \<in> set (fst (verifyLines tw fnt a sw (lb_doc s2)
            (filter (\<lambda>line. length line > 0) (lines s2)))).
          l = [] \<or> lineWidthOf tw fnt n sw l \<le> a"
  proof (rule verifyLines_ok)
    show "curFontSize (lb_doc s2) = n" using i2 by (simp add: lbInv_def)
    show "\<forall>l \<in> set (filter (\<lambda>line. length line > 0) (lines s2)).
        l \<noteq> [] \<and> fitsLine tw fnt n sw a l \<and> (\<forall>p \<in> set l. okSeg p)"
      using i2 by (auto simp: lbInv_def)
  qed
  then show ?thesis by (simp add: r a_def sw_def n_def)
qed

lemma split_ws_a: "split_ws (str ''a'') = [str ''a'']"
  by (simp add: split_ws_def str_def is_ws_def)

lemma split_a_narrow: "m < 1 \<Longrightarrow> m * 0.95 < 1 \<Longrightarrow>
   splitWordIfNeeded charMetric (str ''a'') plainStyle d m =
     ([mkSeg (str ''a'') plainStyle], d\<lparr>curFontStyle := Normal\<rparr>)"
  by (simp add: splitWordIfNeeded_def charMetric_def str_def Let_def surface plainStyle_def)

lemma wordStep_a_narrow:
  "wordStep charMetric (str ''helvetica'') (- 5) 1 plainStyle st0 (str ''a'') =
   st0\<lparr>currentLineSegments := [mkSeg (str ''a'') plainStyle], currentLineWidth := 1\<rparr>"
  apply (simp add: wordStep_def Let_def split_beta split_a_narrow)
  apply (simp add: st0_def doc0_def surface plainStyle_def charMetric_def str_def mkSeg_def)
  done

lemma verifyLine_a_narrow:
  "verifyLine charMetric (str ''helvetica'') (- 5) 1 doc0 [mkSeg (str ''a'') plainStyle] =
   ([], doc0)"
  apply (simp add: verifyLine_def remeasureStep_def rebuildStep_def Let_def split_beta
      split_a_narrow mkSeg_def admitPart_def)
  apply (simp add: doc0_def surface plainStyle_def charMetric_def str_def space_def)
  done

lemma split_a_lines_narrow:
  "splitTextToLines charMetric doc0 segA 5 1 (str ''helvetica'') = ([[]], doc0)"
  apply (simp add: splitTextToLines_def segA_def segmentStep_def Let_def mkSeg_def split_ws_a)
  apply (simp add: getFontSize_def getTextWidth_def charMetric_def doc0_def)
  apply (simp add: wordStep_a_narrow [unfolded st0_def doc0_def mkSeg_def] commitLine_def
      arr_set_def verifyLine_a_narrow [unfolded doc0_def mkSeg_def])
  done

lemma wordStep_a_wide:
  "wordStep charMetric (str ''helvetica'') 5 1 plainStyle st0 (str ''a'') =
   st0\<lparr>currentLineSegments := [mkSeg (str ''a'') plainStyle], currentLineWidth := 1\<rparr>"
  apply (simp add: wordStep_def Let_def split_beta)
  apply (simp add: st0_def doc0_def surface plainStyle_def charMetric_def str_def mkSeg_def)
  done

lemma verifyLine_a_wide:
  "verifyLine charMetric (str ''helvetica'') 5 1 doc0 [mkSeg (str ''a'') plainStyle] =
   ([mkSeg (str ''a'') plainStyle], doc0)"
  apply (simp add: verifyLine_def remeasureStep_def Let_def split_beta mkSeg_def)
  apply (simp add: doc0_def surface plainStyle_def charMetric_def str_def space_def)
  done

lemma split_a_lines_wide:
  "splitTextToLines charMetric doc0 segA 5 0 (str ''helvetica'') = ([segA], doc0)"
  apply (simp add: splitTextToLines_def segA_def segmentStep_def Let_def mkSeg_def split_ws_a)
  apply (simp add: getFontSize_def getTextWidth_def charMetric_def doc0_def)
  apply (simp add: wordStep_a_wide [unfolded st0_def doc0_def mkSeg_def] commitLine_def
      arr_set_def verifyLine_a_wide [unfolded doc0_def mkSeg_def])
  done

text \<open>
  The one word \<open>a\<close> in a width of 5 without indentation: one line, of width 1.
\<close>

theorem splitTextToLines_width_bound_witness:
  "fst (splitTextToLines charMetric doc0 segA 5 0 (str ''helvetica'')) = [segA] \<and>
   lineWidthOf charMetric (str ''helvetica'') (curFontSize doc0)
     (getTextWidth charMetric doc0 [space]) segA \<le> 5 - 0 * getFontSize doc0"
proof -
  have h: "\<forall>g \<in> set segA. heading (seg_style g) = None"
    by (simp add: segA_def mkSeg_def plainStyle_def)
  have ne: "segA \<noteq> []" by (simp add: segA_def)
  have r: "fst (splitTextToLines charMetric doc0 segA 5 0 (str ''helvetica'')) = [segA]"
    by (simp add: split_a_lines_wide)
  from splitTextToLines_width_bound [OF h, of charMetric doc0 5 0 "str ''helvetica''"] r ne
  show ?thesis by simp
qed

text \<open>
  C1, as it is stated, fails where the available width is negative. With a width of 5
  and an indentation of one font size of 10 the word \<open>a\<close> is split off, found too wide
  and dropped: the one line returned is empty, it holds no fragment at all, and its
  width 0 exceeds the available width of -5.
\<close>

theorem width_bound_fails_on_empty_line:
  "fst (splitTextToLines charMetric doc0 segA 5 1 (str ''helvetica'')) = [[]] \<and>
   \<not> lineWidthOf charMetric (str ''helvetica'') (curFontSize doc0)
       (getTextWidth charMetric doc0 [space]) [] \<le> 5 - 1 * getFontSize doc0"
proof
  show "fst (splitTextToLines charMetric doc0 segA 5 1 (str ''helvetica'')) = [[]]"
    by (simp add: split_a_lines_narrow)
  show "\<not> lineWidthOf charMetric (str ''helvetica'') (curFontSize doc0)
       (getTextWidth charMetric doc0 [space]) [] \<le> 5 - 1 * getFontSize doc0"
    by (simp add: lineWidthOf_def getFontSize_def doc0_def)
qed

section \<open>Headings and the page bottom\<close>

lemma splitTextToLines_single_fit:
  assumes h: "heading st = None" and sp: "split_ws w = [w]" and ne: "w \<noteq> []"
    and fit: "tw fnt (styleFont st) (curFontSize d) w \<le> maxW - baseIndentation * curFontSize d"
  shows "splitTextToLines tw d [mkSeg w st] maxW baseIndentation fnt =
         ([[mkSeg w st]], d\<lparr>fontName := fnt, curFontStyle := styleFont st\<rparr>)"
proof -
  define a where "a = maxW - baseIndentation * curFontSize d"
  define sw where "sw = getTextWidth tw d [space]"
  define d1 where "d1 = d\<lparr>fontName := fnt, curFontStyle := styleFont st\<rparr>"
  define s0 where "s0 = \<lparr>lb_doc = d, lines = [[]], currentLine = 0, currentLineWidth = 0,
      currentLineSegments = []\<rparr>"
  have ap: "applyStyle d st (getFontSize d) fnt = d1" "applyStyle d1 st (getFontSize d1) fnt = d1"
    by (simp_all add: applyStyle_None [OF h] getFontSize_def d1_def)
  have w: "getTextWidth tw d1 w = tw fnt (styleFont st) (curFontSize d) w"
    by (simp add: getTextWidth_def d1_def)
  have ws: "wordStep tw fnt a sw st s0 w =
      s0\<lparr>lb_doc := d1, currentLineSegments := [mkSeg w st],
         currentLineWidth := tw fnt (styleFont st) (curFontSize d) w\<rparr>"
    using ne fit by (simp add: wordStep_def s0_def ap w Let_def a_def)
  have s1: "foldl (segmentStep tw fnt a sw) s0 [mkSeg w st] =
      s0\<lparr>lb_doc := d1, currentLineSegments := [mkSeg w st],
         currentLineWidth := tw fnt (styleFont st) (curFontSize d) w\<rparr>"
    by (simp add: segmentStep_def mkSeg_def sp ws [unfolded mkSeg_def])
  have vl: "verifyLine tw fnt a sw d1 [mkSeg w st] = ([mkSeg w st], d1)"
    using fit by (simp add: verifyLine_def remeasureStep_def mkSeg_def ap w a_def)
  show ?thesis
    unfolding splitTextToLines_def Let_def getFontSize_def
    unfolding a_def [symmetric] sw_def [symmetric] s0_def [symmetric] s1
    by (simp add: commitLine_def arr_set_def s0_def vl d1_def [symmetric])
qed

lemma blockLines_single:
  "\<not> y > maxY \<Longrightarrow> blockLines place lineH maxY (Suc 0) [l] 0 y d = (y, place d l y True)"
  by (simp add: Let_def)

lemma placeTextLine_single:
  assumes h: "heading st = None"
  shows "placeTextLine tw options x baseIndentation d [mkSeg w st] y isLast =
     (if align options = Some AlignJustify then
        d\<lparr>curFontStyle := styleFont st,
          drawn := drawn d @
            [\<lparr>d_text = w, d_x = x + baseIndentation * fontSize options, d_y = y,
              d_fontName = fontName d, d_fontStyle = styleFont st,
              d_fontSize = curFontSize d\<rparr>]\<rparr>
      else
        d\<lparr>fontName := font options, curFontStyle := styleFont st,
          curFontSize := fontSize options,
          drawn := drawn d @
            [\<lparr>d_text = w,
              d_x = alignedStart options x (x + baseIndentation * fontSize options)
                      (\<lambda>totalWidth. x + (maxWidth options - totalWidth) / 2)
                      (tw (font options) (styleFont st) (fontSize options) w),
              d_y = y, d_fontName = font options, d_fontStyle = styleFont st,
              d_fontSize = fontSize options\<rparr>]\<rparr>)"
  by (simp add: placeTextLine_def renderJustifiedLine_def fallbackStep_def renderAligned_def
      sizeStep_def drawStep_def mkSeg_def applyStyle_None [OF h] getFontSize_def
      getTextWidth_def drawText_def alignedStart_def Let_def)

lemma heading_block_single_word:
  assumes tok: "parseInlineMarkdown w = [mkSeg w plainStyle]"
    and sp: "split_ws w = [w]" and ne: "w \<noteq> []"
    and fit: "tw (font options) Normal (fontSize options * (2.5 - (real level * 0.3))) w
              \<le> maxWidth options - baseIndentation * (fontSize options * (2.5 - (real level * 0.3)))"
    and page: "\<not> y > maxY" and ind: "baseIndentation = 0.25"
  shows "renderBlock tw options x lineH maxY baseIndentation line (Heading level w) y d =
         (y, d\<lparr>fontName := font options, curFontStyle := Normal,
               curFontSize := fontSize options,
               drawn := drawn d @ [headingCall tw options x y level w]\<rparr>)"
proof -
  define dh where "dh = setFont (setFontSize d (fontSize options * (2.5 - (real level * 0.3))))
      (font options) Bold"
  have dh: "curFontSize dh = fontSize options * (2.5 - (real level * 0.3))"
    "fontName dh = font options" "drawn dh = drawn d"
    by (simp_all add: dh_def setFont_def setFontSize_def)
  have pl: "heading plainStyle = None" "styleFont plainStyle = Normal"
    by (simp_all add: plainStyle_def styleFont_def)
  have sl: "splitTextToLines tw dh [mkSeg w plainStyle] (maxWidth options) baseIndentation
      (font options) = ([[mkSeg w plainStyle]], dh\<lparr>fontName := font options, curFontStyle := Normal\<rparr>)"
    using splitTextToLines_single_fit [OF pl(1) sp ne, of tw "font options" dh "maxWidth options"
        baseIndentation] fit
    by (simp add: dh pl(2))
  show ?thesis
    unfolding renderBlock_def block.case Let_def dh_def [symmetric] tok sl prod.case
    using page
    by (simp add: blockLines_single [OF page] placeTextLine_single [OF pl(1)] pl(2)
        headingCall_def dh_def setFont_def setFontSize_def ind)
qed

lemma title_tokens: "parseInlineMarkdown (str ''Title'') = [mkSeg (str ''Title'') plainStyle]"
  by (simp add: parseInlineMarkdown_def flush_def mkSeg_def str_def star_def underscore_def)

lemma title_words: "split_ws (str ''Title'') = [str ''Title'']" "str ''Title'' \<noteq> []"
  by (simp_all add: split_ws_def str_def is_ws_def)

lemma title_line:
  "calculateIndentation (str ''# Title'') = 0.25"
  "trim (str ''# Title'') = str ''# Title''"
  "classify (str ''# Title'') = Heading 1 (str ''Title'')"
  by (simp_all add: calculateIndentation_def listMarkerMatch_def trim_def classify_def
      headerMatch_def matchTail_def str_def is_ws_def is_lt_def is_digit_def hash_def hyphen_def
      star_def)

lemma second_line: "trim (str ''Second paragraph'') \<noteq> []"
  by (simp add: trim_def str_def is_ws_def)

lemma twoBlocks_lines:
  "splitLines (collapseNewlines (replaceDashes twoBlocks)) =
   [str ''# Title'', str ''Second paragraph'']"
  by (simp add: twoBlocks_def splitLines_def str_def hyphen_def newline_def)

lemma title_lines: "splitLines (collapseNewlines (replaceDashes (str ''# Title''))) = [str ''# Title'']"
  by (simp add: splitLines_def str_def hyphen_def newline_def)

lemma pdfLoop_heading_title:
  assumes fit: "tw (font options) Normal (fontSize options * 2.2) (str ''Title'')
              \<le> maxWidth options - 0.25 * (fontSize options * 2.2)"
    and page: "\<not> y + lineH > maxY"
  shows "pdfLoop tw options x lineH maxY (str ''# Title'' # rest) y d =
         pdfLoop tw options x lineH maxY rest (y + lineH)
           (d\<lparr>fontName := font options, curFontStyle := Normal,
               curFontSize := fontSize options,
               drawn := drawn d @ [headingCall tw options x (y + lineH) 1 (str ''Title'')]\<rparr>)"
proof -
  have ne: "str ''# Title'' \<noteq> []" by (simp add: str_def)
  have f: "tw (font options) Normal (fontSize options * (2.5 - (real 1 * 0.3))) (str ''Title'')
      \<le> maxWidth options - 0.25 * (fontSize options * (2.5 - (real 1 * 0.3)))"
    using fit by simp
  have rb: "renderBlock tw options x lineH maxY 0.25 (str ''# Title'')
      (Heading 1 (str ''Title'')) (y + lineH) d =
      (y + lineH, d\<lparr>fontName := font options, curFontStyle := Normal,
               curFontSize := fontSize options,
               drawn := drawn d @ [headingCall tw options x (y + lineH) 1 (str ''Title'')]\<rparr>)"
    using heading_block_single_word [where baseIndentation = "0.25", OF title_tokens title_words _ page]
      f by simp
  show ?thesis
    using page ne rb by (simp add: title_line Let_def)
qed

lemma pdfLoop_page_full:
  "trim raw \<noteq> [] \<Longrightarrow> y + lineH > maxY \<Longrightarrow>
   pdfLoop tw options x lineH maxY (raw # rest) y d = (y, d)"
  by (simp add: Let_def)

text \<open>
  C8, as the code has it. With the cursor at 0, a line height of 10 and a page bottom at
  12, and when the word \<open>Title\<close> fits the width available to the heading at the
  heading's font size, the layout of the text of the two lines \<open># Title\<close> and
  \<open>Second paragraph\<close> returns 10 and makes one drawing call, for \<open>Title\<close> at height
  10: the paragraph is never drawn.
\<close>

theorem page_truncation_when_heading_fits:
  assumes lh: "fontSize options * 0.352778 * lineHeight options = 10"
    and ph: "pageHeight d - 20 = 12"
    and fit: "tw (font options) Normal (fontSize options * 2.2) (str ''Title'')
              \<le> maxWidth options - 0.25 * (fontSize options * 2.2)"
  shows "parsePDFMarkdown tw d twoBlocks x 0 options =
         (10, d\<lparr>fontName := font options, curFontStyle := Normal,
                curFontSize := fontSize options,
                drawn := drawn d @ [headingCall tw options x 10 1 (str ''Title'')]\<rparr>)"
proof -
  define d2 where "d2 = setFontSize (setFont d (font options) Normal) (fontSize options)"
  have d2: "d2 = d\<lparr>fontName := font options, curFontStyle := Normal,
      curFontSize := fontSize options\<rparr>" "pageHeight d2 = pageHeight d" "drawn d2 = drawn d"
    by (simp_all add: d2_def setFont_def setFontSize_def)
  have ne: "twoBlocks \<noteq> []" by (simp add: twoBlocks_def)
  have my: "pageHeight d2 - 20 = 12" using ph d2(2) by simp
  have "parsePDFMarkdown tw d twoBlocks x 0 options =
      pdfLoop tw options x (fontSize options * 0.352778 * lineHeight options)
        (pageHeight d2 - 20) (splitLines (collapseNewlines (replaceDashes twoBlocks))) 0 d2"
    using ne by (simp add: parsePDFMarkdown_def Let_def d2_def del: pdfLoop.simps)
  then have p: "parsePDFMarkdown tw d twoBlocks x 0 options =
      pdfLoop tw options x 10 12 [str ''# Title'', str ''Second paragraph''] 0 d2"
    by (simp only: lh my twoBlocks_lines)
  have s1: "pdfLoop tw options x 10 12 [str ''# Title'', str ''Second paragraph''] 0 d2 =
      pdfLoop tw options x 10 12 [str ''Second paragraph''] (0 + 10)
        (d2\<lparr>fontName := font options, curFontStyle := Normal,
            curFontSize := fontSize options,
            drawn := drawn d2 @ [headingCall tw options x (0 + 10) 1 (str ''Title'')]\<rparr>)"
    by (rule pdfLoop_heading_title [where tw = tw and options = options, OF fit]) simp
  have s2: "pdfLoop tw options x 10 12 [str ''Second paragraph''] (0 + 10) dd = (0 + 10, dd)" for dd
    by (rule pdfLoop_page_full [OF second_line]) simp
  show ?thesis
    unfolding p s1 s2 by (simp add: d2)
qed

lemma opts0_fit:
  "charMetric (font opts0) Normal (fontSize opts0 * 2.2) (str ''Title'')
     \<le> maxWidth opts0 - 0.25 * (fontSize opts0 * 2.2)"
  "fontSize opts0 * 0.352778 * lineHeight opts0 = 10"
  "pageHeight doc0 - 20 = 12"
  by (simp_all add: charMetric_def opts0_def doc0_def str_def)

text \<open>Unit-wide characters in a width of 100, on a page of height 32.\<close>

theorem page_truncation_when_heading_fits_witness:
  "parsePDFMarkdown charMetric doc0 twoBlocks 0 0 opts0 =
     (10, doc0\<lparr>fontName := font opts0, curFontStyle := Normal, curFontSize := fontSize opts0,
                drawn := drawn doc0 @ [headingCall charMetric opts0 0 10 1 (str ''Title'')]\<rparr>) \<and>
   d_text (headingCall charMetric opts0 0 10 1 (str ''Title'')) = str ''Title''"
  using page_truncation_when_heading_fits [where tw = charMetric and options = opts0 and d = doc0,
      OF opts0_fit(2) opts0_fit(3) opts0_fit(1), of 0]
  by (simp add: headingCall_def)

lemma verifyLines_length: "length (fst (verifyLines tw f a sw d ls)) = length ls"
  by (induction ls arbitrary: d) (simp_all add: split_beta Let_def)

lemma blockLines_skip:
  "y > maxY \<Longrightarrow> blockLines place lineH maxY n lns i y d = (y, d)"
  by (induction lns arbitrary: i) simp_all

lemma blockLines_overflow:
  "\<not> y > maxY \<Longrightarrow> y + lineH > maxY \<Longrightarrow> int i < int n - 1 \<Longrightarrow>
   fst (blockLines place lineH maxY n (l # lns) i y d) = y + lineH"
  by (simp add: Let_def blockLines_skip)

lemma split_title_narrow:
  "splitWordIfNeeded charMetric (str ''Title'') plainStyle d (5 / 2) =
     ([mkSeg (str ''Ti-'') plainStyle, mkSeg (str ''tl-'') plainStyle, mkSeg (str ''e'') plainStyle],
      d\<lparr>curFontStyle := Normal\<rparr>)"
  by (simp add: splitWordIfNeeded_def charMetric_def str_def Let_def surface plainStyle_def
      hyphen_def)

lemma title_narrow_greedy:
  assumes "curFontSize dh = 22"
  shows "lines (commitLine (wordStep charMetric f 2.5 sw plainStyle
           \<lparr>lb_doc = dh, lines = [[]], currentLine = 0, currentLineWidth = 0,
            currentLineSegments = []\<rparr> (str ''Title''))) =
         [[mkSeg (str ''Ti-'') plainStyle], [mkSeg (str ''tl-'') plainStyle],
          [mkSeg (str ''e'') plainStyle], []]"
proof -
  have ne: "str ''Title'' \<noteq> []" by (simp add: str_def)
  have w: "charMetric a b c (str ''Title'') = 5" for a b c
    by (simp add: charMetric_def str_def)
  show ?thesis
    using ne
    by (simp add: wordStep_def Let_def getTextWidth_def w split_title_narrow commitLine_def
        arr_set_def)
qed

lemma title_narrow_count:
  assumes "curFontSize dh = 22"
  shows "length (fst (splitTextToLines charMetric dh [mkSeg (str ''Title'') plainStyle] 8 0.25 f)) = 3"
proof -
  have a: "8 - 0.25 * getFontSize dh = 2.5" using assms by (simp add: getFontSize_def)
  have ne: "str ''Title'' \<noteq> []" by (simp add: str_def)
  have w: "charMetric a b c (str ''Title'') = 5" for a b c
    by (simp add: charMetric_def str_def)
  have cl: "currentLineSegments (wordStep charMetric f 2.5 sw plainStyle
           \<lparr>lb_doc = dh, lines = [[]], currentLine = 0, currentLineWidth = 0,
            currentLineSegments = []\<rparr> (str ''Title'')) \<noteq> []" for sw
    using ne
    by (simp add: wordStep_def Let_def getTextWidth_def w split_title_narrow commitLine_def
        arr_set_def)
  show ?thesis
    unfolding splitTextToLines_def Let_def a verifyLines_length
    using cl title_narrow_greedy [OF assms]
    by (simp add: segmentStep_def mkSeg_def title_words)
qed

lemma renderBlock_heading_cursor:
  "fst (renderBlock tw options x lineH maxY bi line (Heading level w) y d) =
   fst (blockLines (placeTextLine tw options x bi) lineH maxY
     (length (fst (splitTextToLines tw
        (setFont (setFontSize d (fontSize options * (2.5 - (real level * 0.3)))) (font options) Bold)
        (parseInlineMarkdown w) (maxWidth options) bi (font options))))
     (fst (splitTextToLines tw
        (setFont (setFontSize d (fontSize options * (2.5 - (real level * 0.3)))) (font options) Bold)
        (parseInlineMarkdown w) (maxWidth options) bi (font options)))
     0 y
     (snd (splitTextToLines tw
        (setFont (setFontSize d (fontSize options * (2.5 - (real level * 0.3)))) (font options) Bold)
        (parseInlineMarkdown w) (maxWidth options) bi (font options))))"
  by (simp add: renderBlock_def Let_def split_beta)

lemma narrow_heading_cursor:
  "fst (renderBlock charMetric optsNarrow x 10 12 0.25 (str ''# Title'')
      (Heading 1 (str ''Title'')) 10 d) = 20"
proof -
  define dh where "dh = setFont (setFontSize d (fontSize optsNarrow * (2.5 - (real 1 * 0.3))))
      (font optsNarrow) Bold"
  have sz: "curFontSize dh = 22"
    by (simp add: dh_def setFont_def setFontSize_def optsNarrow_def opts0_def)
  define lns where "lns = fst (splitTextToLines charMetric dh [mkSeg (str ''Title'') plainStyle] 8
      0.25 (font optsNarrow))"
  have len: "length lns = 3" unfolding lns_def by (rule title_narrow_count [OF sz])
  then obtain l rest where lr: "lns = l # rest" by (cases lns) auto
  have mw: "maxWidth optsNarrow = 8" by (simp add: optsNarrow_def)
  have "fst (blockLines (placeTextLine charMetric optsNarrow x 0.25) 10 12 (length lns) lns 0 10 dd)
      = 10 + 10" for dd
    unfolding lr using len lr by (intro blockLines_overflow) simp_all
  then show ?thesis
    unfolding renderBlock_heading_cursor dh_def [symmetric] title_tokens mw lns_def [symmetric]
    by simp
qed

text \<open>
  C8, as it is stated, fails when the heading does not fit on one line. In a width of 8
  the word \<open>Title\<close> is split over three sub-lines; the cursor moves down after the
  first, to 20, the other two are skipped, and 20 is returned, below the page bottom.
\<close>

theorem page_truncation_heading_wraps:
  "fontSize optsNarrow * 0.352778 * lineHeight optsNarrow = 10 \<and>
   pageHeight doc0 - 20 = 12 \<and>
   fst (parsePDFMarkdown charMetric doc0 twoBlocks 0 0 optsNarrow) = 20"
proof (intro conjI)
  show lh: "fontSize optsNarrow * 0.352778 * lineHeight optsNarrow = 10"
    by (simp add: optsNarrow_def opts0_def)
  show "pageHeight doc0 - 20 = 12" by (simp add: doc0_def)
  define d2 where "d2 = setFontSize (setFont doc0 (font optsNarrow) Normal) (fontSize optsNarrow)"
  have my: "pageHeight d2 - 20 = 12" by (simp add: d2_def setFont_def setFontSize_def doc0_def)
  have ne: "twoBlocks \<noteq> []" by (simp add: twoBlocks_def)
  have "parsePDFMarkdown charMetric doc0 twoBlocks 0 0 optsNarrow =
      pdfLoop charMetric optsNarrow 0 (fontSize optsNarrow * 0.352778 * lineHeight optsNarrow)
        (pageHeight d2 - 20) (splitLines (collapseNewlines (replaceDashes twoBlocks))) 0 d2"
    using ne by (simp add: parsePDFMarkdown_def Let_def d2_def del: pdfLoop.simps)
  then have p: "parsePDFMarkdown charMetric doc0 twoBlocks 0 0 optsNarrow =
      pdfLoop charMetric optsNarrow 0 10 12 [str ''# Title'', str ''Second paragraph''] 0 d2"
    by (simp only: lh my twoBlocks_lines)
  define R where "R = renderBlock charMetric optsNarrow 0 10 12 0.25 (str ''# Title'')
      (Heading 1 (str ''Title'')) 10 d2"
  have r: "fst R = 20" unfolding R_def by (rule narrow_heading_cursor)
  have t: "str ''# Title'' \<noteq> []" by (simp add: str_def)
  have s1: "pdfLoop charMetric optsNarrow 0 10 12 [str ''# Title'', str ''Second paragraph''] 0 d2 =
      pdfLoop charMetric optsNarrow 0 10 12 [str ''Second paragraph''] (fst R) (snd R)"
    using t unfolding R_def
    by (subst pdfLoop.simps(2)) (simp add: title_line Let_def split_beta del: pdfLoop.simps)
  have s2: "pdfLoop charMetric optsNarrow 0 10 12 [str ''Second paragraph''] (fst R) (snd R) =
      (fst R, snd R)"
    by (rule pdfLoop_page_full [OF second_line]) (simp add: r)
  show "fst (parsePDFMarkdown charMetric doc0 twoBlocks 0 0 optsNarrow) = 20"
    unfolding p s1 s2 by (simp add: r)
qed

text \<open>
  C5 at the heading \<open># Title\<close>, of level 1, with a base font size of 10: the claim has
  the word drawn at size 22 and in bold. Left-aligned it is drawn at size 10 and in the
  normal style, since \<open>applyStyle\<close> is called with the base size and sets the style of
  the segment; justified it is drawn at size 22, and in the normal style too.
\<close>

theorem heading_drawn_at_base_size:
  "drawn (snd (parsePDFMarkdown charMetric doc0 (str ''# Title'') 0 0 opts0)) =
     [\<lparr>d_text = str ''Title'', d_x = 2.5, d_y = 10, d_fontName = str ''helvetica'',
       d_fontStyle = Normal, d_fontSize = 10\<rparr>] \<and>
   drawn (snd (parsePDFMarkdown charMetric doc0 (str ''# Title'') 0 0
               (opts0\<lparr>align := Some AlignJustify\<rparr>))) =
     [\<lparr>d_text = str ''Title'', d_x = 2.5, d_y = 10, d_fontName = str ''helvetica'',
       d_fontStyle = Normal, d_fontSize = 22\<rparr>]"
proof -
  have ne: "str ''# Title'' \<noteq> []" by (simp add: str_def)
  have run: "parsePDFMarkdown charMetric doc0 (str ''# Title'') 0 0 options =
      (10, doc0\<lparr>fontName := font options, curFontStyle := Normal,
                curFontSize := fontSize options,
                drawn := drawn doc0 @ [headingCall charMetric options 0 10 1 (str ''Title'')]\<rparr>)"
    if o: "fontSize options = 10" "lineHeight options = 500000 / 176389"
      "maxWidth options = 100" for options
  proof -
    define d2 where "d2 = setFontSize (setFont doc0 (font options) Normal) (fontSize options)"
    have d2: "d2 = doc0\<lparr>fontName := font options, curFontStyle := Normal,
        curFontSize := fontSize options\<rparr>" "pageHeight d2 = 32" "drawn d2 = drawn doc0"
      by (simp_all add: d2_def setFont_def setFontSize_def doc0_def)
    have fit: "charMetric (font options) Normal (fontSize options * 2.2) (str ''Title'')
        \<le> maxWidth options - 0.25 * (fontSize options * 2.2)"
      by (simp add: o charMetric_def str_def)
    have lh: "fontSize options * 0.352778 * lineHeight options = 10" by (simp add: o)
    have my: "pageHeight d2 - 20 = 12" by (simp add: d2(2))
    have "parsePDFMarkdown charMetric doc0 (str ''# Title'') 0 0 options =
        pdfLoop charMetric options 0 (fontSize options * 0.352778 * lineHeight options)
          (pageHeight d2 - 20) (splitLines (collapseNewlines (replaceDashes (str ''# Title''))))
          0 d2"
      using ne by (simp add: parsePDFMarkdown_def Let_def d2_def del: pdfLoop.simps)
    then have p: "parsePDFMarkdown charMetric doc0 (str ''# Title'') 0 0 options =
        pdfLoop charMetric options 0 10 12 [str ''# Title''] 0 d2"
      by (simp only: lh my title_lines)
    have s1: "pdfLoop charMetric options 0 10 12 [str ''# Title''] 0 d2 =
        pdfLoop charMetric options 0 10 12 [] (0 + 10)
          (d2\<lparr>fontName := font options, curFontStyle := Normal,
              curFontSize := fontSize options,
              drawn := drawn d2 @ [headingCall charMetric options 0 (0 + 10) 1 (str ''Title'')]\<rparr>)"
      by (rule pdfLoop_heading_title [where tw = charMetric and options = options, OF fit]) simp
    show ?thesis unfolding p s1 by (simp add: d2)
  qed
  have a: "drawn (snd (parsePDFMarkdown charMetric doc0 (str ''# Title'') 0 0 opts0)) =
      [headingCall charMetric opts0 0 10 1 (str ''Title'')]"
    by (subst run) (simp_all add: opts0_def doc0_def)
  have b: "drawn (snd (parsePDFMarkdown charMetric doc0 (str ''# Title'') 0 0
               (opts0\<lparr>align := Some AlignJustify\<rparr>))) =
      [headingCall charMetric (opts0\<lparr>align := Some AlignJustify\<rparr>) 0 10 1 (str ''Title'')]"
    by (subst run) (simp_all add: opts0_def doc0_def)
  show ?thesis
    unfolding a b
    by (simp add: headingCall_def alignedStart_def opts0_def)
qed

end
